theory Spec2Isabelle
  imports Main "HOL-Library.Char_ord" "HOL-Library.List_Lexorder"
begin

section \<open>JavaScript values and the platform the program runs on\<close>

text \<open>
  The program is \<^verbatim>\<open>src/index.js\<close> of typeologist. A JavaScript string is modelled as a
  \<^typ>\<open>string\<close>, read as a sequence of code units below 256. A thrown value (and the reason of
  a rejected promise) is a \<open>js_error\<close> carrying its \<^verbatim>\<open>message\<close>; a computation that can
  throw returns \<open>js_error + 'a\<close> with \<open>Inl\<close> for the throw.
\<close>

datatype js_error = JsError (message: string)

text \<open>The fields the program reads from a \<^verbatim>\<open>URL\<close> object.\<close>

record url_obj =
  href :: string
  protocol :: string
  host :: string
  pathname :: string
  search :: string
  hash :: string

datatype http_method = GET | HEAD

text \<open>
  The fields and methods the program uses of a \<^verbatim>\<open>fetch\<close> response: \<^verbatim>\<open>ok\<close>,
  \<^verbatim>\<open>status\<close>, \<^verbatim>\<open>url\<close> (here \<open>resp_url\<close>), \<^verbatim>\<open>text()\<close> (here \<open>body_text\<close>) and
  \<^verbatim>\<open>arrayBuffer()\<close>; reading the body can fail.
\<close>

record response =
  ok :: bool
  status :: nat
  resp_url :: string
  body_text :: "js_error + string"
  arrayBuffer :: "js_error + nat list"

text \<open>
  What the program observes of a parsed document: the attribute values of every element
  (\<^verbatim>\<open>document.querySelectorAll("*")\<close>, in document order), the text content of the body
  (\<open>None\<close> when there is no body) and the text content of every
  \<^verbatim>\<open>script[type="application/ld+json"]\<close> element.
\<close>

record document =
  all_elements :: "(string \<times> string) list list"
  body_textContent :: "string option"
  ld_json_scripts :: "string list"

datatype json =
    JNull
  | JBool bool
  | JNumber string
  | JString string
  | JArray "json list"
  | JObject "(string \<times> json) list"

text \<open>
  The library functions the program calls and does not define are parameters of the model:
  the WHATWG \<^verbatim>\<open>URL\<close> constructor with one and with two arguments, \<^verbatim>\<open>fetch\<close> of node-fetch,
  \<^verbatim>\<open>fs.writeFileSync\<close>, \<^verbatim>\<open>path.join\<close>, the \<^verbatim>\<open>JSDOM\<close> constructor and \<^verbatim>\<open>JSON.parse\<close>.
  The answer of the network and of the file system to a call is a function of the call's
  arguments. \<open>OUTPUT_DIR\<close> is the constant of line 49.
\<close>

record env =
  new_URL :: "string \<Rightarrow> js_error + url_obj"
  new_URL_base :: "string \<Rightarrow> string \<Rightarrow> js_error + url_obj"
  fetch :: "http_method \<Rightarrow> string \<Rightarrow> js_error + response"
  writeFileSync :: "string \<Rightarrow> nat list \<Rightarrow> js_error + unit"
  path_join :: "string \<Rightarrow> string \<Rightarrow> string"
  JSDOM :: "string \<Rightarrow> js_error + document"
  JSON_parse :: "string \<Rightarrow> js_error + json"
  OUTPUT_DIR :: string

subsection \<open>Effects: results with the trace of external calls\<close>

text \<open>
  A computation returns its result (or the error it throws) together with the network and
  file-system calls it made, in order.
\<close>

datatype action = Fetch http_method string | WriteFile string "nat list"

type_synonym 'a io = "(js_error + 'a) \<times> action list"

definition io_return :: "'a \<Rightarrow> 'a io" where
  "io_return v = (Inr v, [])"

definition io_lift :: "js_error + 'a \<Rightarrow> 'a io" where
  "io_lift r = (r, [])"

definition io_bind :: "'a io \<Rightarrow> ('a \<Rightarrow> 'b io) \<Rightarrow> 'b io" where
  "io_bind m f =
     (case m of
        (Inl e, t) \<Rightarrow> (Inl e, t)
      | (Inr v, t) \<Rightarrow> (case f v of (r, t') \<Rightarrow> (r, t @ t')))"

definition try_catch :: "'a io \<Rightarrow> (js_error \<Rightarrow> 'a io) \<Rightarrow> 'a io" where
  "try_catch m handler =
     (case m of
        (Inl e, t) \<Rightarrow> (case handler e of (r, t') \<Rightarrow> (r, t @ t'))
      | (Inr v, t) \<Rightarrow> (Inr v, t))"

definition do_fetch :: "env \<Rightarrow> http_method \<Rightarrow> string \<Rightarrow> response io" where
  "do_fetch w m u = (fetch w m u, [Fetch m u])"

definition do_writeFileSync :: "env \<Rightarrow> string \<Rightarrow> nat list \<Rightarrow> unit io" where
  "do_writeFileSync w p b = (writeFileSync w p b, [WriteFile p b])"

subsection \<open>Strings and arrays\<close>

text \<open>\<^verbatim>\<open>s.split(sep)\<close> for a one-character separator, scanning left to right.\<close>

fun split_acc :: "char \<Rightarrow> string \<Rightarrow> string \<Rightarrow> string list" where
  "split_acc sep cur [] = [cur]"
| "split_acc sep cur (c # cs) =
     (if c = sep then cur # split_acc sep [] cs else split_acc sep (cur @ [c]) cs)"

definition split :: "char \<Rightarrow> string \<Rightarrow> string list" where
  "split sep s = split_acc sep [] s"

text \<open>\<^verbatim>\<open>xs.pop()\<close>: the last element, \<^verbatim>\<open>undefined\<close> (here \<open>None\<close>) for an empty array.\<close>

definition pop :: "'a list \<Rightarrow> 'a option" where
  "pop xs = (if xs = [] then None else Some (last xs))"

text \<open>\<^verbatim>\<open>xs.slice(i, j)\<close> for \<open>0 \<le> i \<le> j\<close>; it stops at the end of the array.\<close>

definition slice :: "'a list \<Rightarrow> nat \<Rightarrow> nat \<Rightarrow> 'a list" where
  "slice xs i j = take (j - i) (drop i xs)"

text \<open>Decimal rendering of a number inside a template literal.\<close>

definition digit_char :: "nat \<Rightarrow> char" where
  "digit_char d = char_of (48 + d)"

function show_nat :: "nat \<Rightarrow> string" where
  "show_nat n = (if n < 10 then [digit_char n] else show_nat (n div 10) @ [digit_char (n mod 10)])"
  by pat_completeness auto
termination
  by (relation "measure id") auto

section \<open>The batched executor (lines 239-248 and 271-309)\<close>

text \<open>
  Line 27: \<^verbatim>\<open>Math.max(1, parseInt(argv.concurrency) || 30)\<close>. The argument is the result of
  \<^verbatim>\<open>parseInt\<close>, \<open>None\<close> for \<^verbatim>\<open>NaN\<close>; \<^verbatim>\<open>NaN\<close> and \<open>0\<close> are falsy.
\<close>

definition CONCURRENCY_LIMIT :: "int option \<Rightarrow> nat" where
  "CONCURRENCY_LIMIT parsed =
     nat (max 1 (case parsed of None \<Rightarrow> 30 | Some n \<Rightarrow> if n = 0 then 30 else n))"

text \<open>
  \<^verbatim>\<open>await Promise.all(ps)\<close>: every operation of the chunk runs; the await throws when one of
  them rejected, and gives the values in the order of \<open>ps\<close> otherwise. The trace lists the
  calls of the operations in the order of \<open>ps\<close>.
\<close>

fun Promise_all :: "'r io list \<Rightarrow> 'r list io" where
  "Promise_all [] = (Inr [], [])"
| "Promise_all (p # ps) =
     (case p of (r, t) \<Rightarrow>
        (case Promise_all ps of (rs, ts) \<Rightarrow>
           ((case r of
               Inl e \<Rightarrow> Inl e
             | Inr v \<Rightarrow> (case rs of Inl e \<Rightarrow> Inl e | Inr vs \<Rightarrow> Inr (v # vs))),
            t @ ts)))"

text \<open>
  Both loops have the form
  \<^verbatim>\<open>for (let i = 0; i < urls.length; i += CONCURRENCY_LIMIT) {
    const batch = urls.slice(i, i + CONCURRENCY_LIMIT);
    const batchResults = await Promise.all(batch.map(op));
    results.push(...batchResults); }\<close>
  and differ in \<open>op\<close> only. The loop state is \<open>i\<close>, \<open>results\<close> and the trace so far. With a
  limit of 0 the loop would not end, so the result is an option.
\<close>

partial_function (option) batch_loop ::
  "nat \<Rightarrow> ('a \<Rightarrow> 'r io) \<Rightarrow> 'a list \<Rightarrow> nat \<Rightarrow> 'r list \<Rightarrow> action list \<Rightarrow> ('r list io) option"
where
  "batch_loop limit op urls i results trace =
     (if i < length urls then
        (case Promise_all (map op (slice urls i (i + limit))) of
           (Inl e, t) \<Rightarrow> Some (Inl e, trace @ t)
         | (Inr batchResults, t) \<Rightarrow>
             batch_loop limit op urls (i + limit) (results @ batchResults) (trace @ t))
      else Some (Inr results, trace))"

declare batch_loop.simps [code]

subsection \<open>The probe: \<^verbatim>\<open>testUrl\<close> and \<^verbatim>\<open>testUrls\<close> (lines 224-262)\<close>

definition testUrl :: "env \<Rightarrow> string \<Rightarrow> bool io" where
  "testUrl w url =
     try_catch
       (io_bind (do_fetch w HEAD url) (\<lambda>response. io_return (ok response)))
       (\<lambda>error. io_return False)"

record probe =
  url :: string
  accessible :: bool

definition testUrls_op :: "env \<Rightarrow> string \<Rightarrow> probe io" where
  "testUrls_op w u = io_bind (testUrl w u) (\<lambda>a. io_return \<lparr>url = u, accessible = a\<rparr>)"

definition testUrls_results :: "env \<Rightarrow> nat \<Rightarrow> string list \<Rightarrow> (probe list io) option" where
  "testUrls_results w limit urls = batch_loop limit (testUrls_op w) urls 0 [] []"

definition testUrls :: "env \<Rightarrow> nat \<Rightarrow> string list \<Rightarrow> (string list io) option" where
  "testUrls w limit urls =
     map_option
       (\<lambda>m. io_bind m (\<lambda>results. io_return (map url (filter accessible results))))
       (testUrls_results w limit urls)"

subsection \<open>The retriever: the loop of \<^verbatim>\<open>downloadFontFiles\<close> (lines 269-309)\<close>

record outcome =
  success :: bool
  filename :: string
  error :: "string option"

definition downloadFontFiles_op :: "env \<Rightarrow> string \<Rightarrow> outcome io" where
  "downloadFontFiles_op w u =
     try_catch
       (io_bind (io_lift (new_URL w u)) (\<lambda>urlObj.
          case pop (split CHR ''/'' (pathname urlObj)) of
            None \<Rightarrow>
              io_return \<lparr>success = False, filename = ''unknown'', error = Some ''No filename found''\<rparr>
          | Some name \<Rightarrow>
              if name = [] then
                io_return \<lparr>success = False, filename = ''unknown'', error = Some ''No filename found''\<rparr>
              else
                io_bind (do_fetch w GET u) (\<lambda>response.
                  if \<not> ok response then
                    io_return \<lparr>success = False, filename = name,
                                error = Some (''HTTP '' @ show_nat (status response))\<rparr>
                  else
                    io_bind (io_lift (arrayBuffer response)) (\<lambda>buffer.
                      io_bind (do_writeFileSync w (path_join w (OUTPUT_DIR w) name) buffer) (\<lambda>_.
                        io_return \<lparr>success = True, filename = name, error = None\<rparr>)))))
       (\<lambda>e. io_return \<lparr>success = False, filename = ''unknown'', error = Some (message e)\<rparr>)"

definition downloadFontFiles_results :: "env \<Rightarrow> nat \<Rightarrow> string list \<Rightarrow> (outcome list io) option" where
  "downloadFontFiles_results w limit urls = batch_loop limit (downloadFontFiles_op w) urls 0 [] []"

subsection \<open>The executor as the specification words it\<close>

text \<open>
  Partition the items into consecutive chunks of size \<open>limit\<close> (the last one may be smaller)
  and process the chunks one after the other, every chunk with \<^verbatim>\<open>Promise.all\<close>.
\<close>

function chunks :: "nat \<Rightarrow> 'a list \<Rightarrow> 'a list list" where
  "chunks limit xs =
     (if xs = [] \<or> limit = 0 then [] else take limit xs # chunks limit (drop limit xs))"
  by pat_completeness auto
termination
  by (relation "measure (\<lambda>(limit, xs). length xs)") auto

fun run_chunks :: "('a \<Rightarrow> 'r io) \<Rightarrow> 'a list list \<Rightarrow> 'r list io" where
  "run_chunks op [] = (Inr [], [])"
| "run_chunks op (c # cs) =
     io_bind (Promise_all (map op c)) (\<lambda>rs.
       io_bind (run_chunks op cs) (\<lambda>rest. io_return (rs @ rest)))"

section \<open>The extension filter (lines 68-105 and 207-222)\<close>

text \<open>
  \<^verbatim>\<open>toLowerCase\<close> on code units below 256: the letters A-Z and the Latin-1 capitals
  (0xC0-0xDE without the multiplication sign 0xD7) move up by 32.
\<close>

definition toLowerCase_char :: "char \<Rightarrow> char" where
  "toLowerCase_char c =
     (let n = (of_char c :: nat)
      in if (65 \<le> n \<and> n \<le> 90) \<or> (192 \<le> n \<and> n \<le> 222 \<and> n \<noteq> 215)
         then char_of (n + 32) else c)"

definition toLowerCase :: "string \<Rightarrow> string" where
  "toLowerCase s = map toLowerCase_char s"

definition startsWith :: "string \<Rightarrow> string \<Rightarrow> bool" where
  "startsWith s p = (take (length p) s = p)"

definition endsWith :: "string \<Rightarrow> string \<Rightarrow> bool" where
  "endsWith s p = (length p \<le> length s \<and> drop (length s - length p) s = p)"

text \<open>The catalogue of lines 68-105; the \<^verbatim>\<open>color\<close> field only paints terminal output.\<close>

record font_format =
  name :: string
  display :: string
  extensions :: "string list"

definition FONT_FORMATS :: "font_format list" where
  "FONT_FORMATS =
     [\<lparr>name = ''all'', display = ''All Formats'',
        extensions = [''woff2'', ''woff'', ''ttf'', ''otf'', ''eot'']\<rparr>,
      \<lparr>name = ''woff2'', display = ''Web Open Font Format 2.0'', extensions = [''woff2'']\<rparr>,
      \<lparr>name = ''woff'', display = ''Web Open Font Format'', extensions = [''woff'']\<rparr>,
      \<lparr>name = ''ttf'', display = ''TrueType Font'', extensions = [''ttf'']\<rparr>,
      \<lparr>name = ''otf'', display = ''OpenType Font'', extensions = [''otf'']\<rparr>,
      \<lparr>name = ''eot'', display = ''Embedded OpenType'', extensions = [''eot'']\<rparr>]"

text \<open>
  Lines 459-465 of \<^verbatim>\<open>init\<close>: the extensions of the selected formats, in the order of the
  selection; a name that is not in the catalogue adds nothing.
\<close>

definition selected_extensions :: "string list \<Rightarrow> string list" where
  "selected_extensions selectedFormats =
     concat (map (\<lambda>formatName.
       case find (\<lambda>f. name f = formatName) FONT_FORMATS of
         None \<Rightarrow> []
       | Some selectedFormat \<Rightarrow> extensions selectedFormat) selectedFormats)"

definition normalizedExt :: "string \<Rightarrow> string" where
  "normalizedExt ext = (if startsWith ext ''.'' then ext else ''.'' @ ext)"

text \<open>
  The callback of \<^verbatim>\<open>urls.filter\<close>. A throw of the \<^verbatim>\<open>URL\<close> constructor, or of
  \<^verbatim>\<open>toLowerCase\<close> on \<^verbatim>\<open>undefined\<close>, is caught and gives \<^verbatim>\<open>false\<close>.
\<close>

definition keeps_url :: "env \<Rightarrow> string list \<Rightarrow> string \<Rightarrow> bool" where
  "keeps_url w exts u =
     (case new_URL w u of
        Inl e \<Rightarrow> False
      | Inr urlObj \<Rightarrow>
          (case pop (split CHR ''/'' (pathname urlObj)) of
             None \<Rightarrow> False
           | Some lastSegment \<Rightarrow>
               list_ex (\<lambda>ext. endsWith (toLowerCase lastSegment) (toLowerCase (normalizedExt ext)))
                 exts))"

definition filterUrlsByExtension :: "env \<Rightarrow> string list \<Rightarrow> string list \<Rightarrow> string list" where
  "filterUrlsByExtension w urls exts = filter (keeps_url w exts) urls"

subsection \<open>The filter as the specification words it\<close>

text \<open>
  The final \<open>/\<close>-delimited component of a path; an extension with a leading dot stripped and
  the dot put back; ending on a string without regard to case.
\<close>

definition final_segment :: "string \<Rightarrow> string" where
  "final_segment p = rev (takeWhile (\<lambda>c. c \<noteq> CHR ''/'') (rev p))"

definition strip_leading_dot :: "string \<Rightarrow> string" where
  "strip_leading_dot ext = (case ext of [] \<Rightarrow> [] | c # cs \<Rightarrow> if c = CHR ''.'' then cs else ext)"

definition ends_with_ci :: "string \<Rightarrow> string \<Rightarrow> bool" where
  "ends_with_ci s p = endsWith (toLowerCase s) (toLowerCase p)"

definition spec_keeps :: "env \<Rightarrow> string list \<Rightarrow> string \<Rightarrow> bool" where
  "spec_keeps w exts u =
     (case new_URL w u of
        Inl e \<Rightarrow> False
      | Inr urlObj \<Rightarrow>
          list_ex (\<lambda>ext. ends_with_ci (final_segment (pathname urlObj))
                           (''.'' @ strip_leading_dot ext)) exts)"

section \<open>A sample platform\<close>

text \<open>
  The answers of the platform at the addresses used in the examples below: what the
  \<^verbatim>\<open>URL\<close> constructor returns for them, a server that has \<^verbatim>\<open>a.woff2\<close> and
  \<^verbatim>\<open>font.WOFF2\<close> and answers 404 otherwise, a host that cannot be reached, and an output
  directory \<^verbatim>\<open>/out\<close> in which \<^verbatim>\<open>locked.woff2\<close> cannot be written.
\<close>

definition mk_url :: "string \<Rightarrow> string \<Rightarrow> string \<Rightarrow> string \<Rightarrow> string \<Rightarrow> url_obj" where
  "mk_url pr h p q f =
     \<lparr>href = pr @ ''//'' @ h @ p @ q @ f, protocol = pr, host = h, pathname = p,
      search = q, hash = f\<rparr>"

definition sample_new_URL :: "string \<Rightarrow> js_error + url_obj" where
  "sample_new_URL s =
     (if s = ''https://example.com/fonts/a.woff2'' then
        Inr (mk_url ''https:'' ''example.com'' ''/fonts/a.woff2'' [] [])
      else if s = ''https://example.com/fonts/a.woff2?v=1'' then
        Inr (mk_url ''https:'' ''example.com'' ''/fonts/a.woff2'' ''?v=1'' [])
      else if s = ''https://example.com/fonts/a.woff2#top'' then
        Inr (mk_url ''https:'' ''example.com'' ''/fonts/a.woff2'' [] ''#top'')
      else if s = ''https://example.com/fonts/font.WOFF2?x=1'' then
        Inr (mk_url ''https:'' ''example.com'' ''/fonts/font.WOFF2'' ''?x=1'' [])
      else if s = ''https://example.com/fonts/b.ttf'' then
        Inr (mk_url ''https:'' ''example.com'' ''/fonts/b.ttf'' [] [])
      else if s = ''https://example.com/fonts/locked.woff2'' then
        Inr (mk_url ''https:'' ''example.com'' ''/fonts/locked.woff2'' [] [])
      else if s = ''https://example.com/fonts/'' then
        Inr (mk_url ''https:'' ''example.com'' ''/fonts/'' [] [])
      else if s = ''https://example.com/'' then
        Inr (mk_url ''https:'' ''example.com'' ''/'' [] [])
      else if s = ''https://down.example.com/c.otf'' then
        Inr (mk_url ''https:'' ''down.example.com'' ''/c.otf'' [] [])
      else Inl (JsError ''Invalid URL''))"

definition sample_response :: "bool \<Rightarrow> nat \<Rightarrow> string \<Rightarrow> nat list \<Rightarrow> response" where
  "sample_response good code u bytes =
     \<lparr>ok = good, status = code, resp_url = u, body_text = Inr [], arrayBuffer = Inr bytes\<rparr>"

definition sample_fetch :: "http_method \<Rightarrow> string \<Rightarrow> js_error + response" where
  "sample_fetch m u =
     (if u = ''https://example.com/fonts/a.woff2'' \<or> u = ''https://example.com/fonts/a.woff2?v=1''
         \<or> u = ''https://example.com/fonts/a.woff2#top''
         \<or> u = ''https://example.com/fonts/locked.woff2'' then
        Inr (sample_response True 200 u (if m = GET then [119, 79, 70, 50] else []))
      else if u = ''https://example.com/fonts/font.WOFF2?x=1'' then
        Inr (sample_response True 200 u (if m = GET then [119, 79, 70, 50, 0] else []))
      else if u = ''https://down.example.com/c.otf'' then
        Inl (JsError ''getaddrinfo ENOTFOUND down.example.com'')
      else Inr (sample_response False 404 u []))"

definition sample_writeFileSync :: "string \<Rightarrow> nat list \<Rightarrow> js_error + unit" where
  "sample_writeFileSync p bytes =
     (if p = ''/out/locked.woff2'' then Inl (JsError ''EACCES: permission denied'') else Inr ())"

definition sample_env :: env where
  "sample_env =
     \<lparr>new_URL = sample_new_URL,
      new_URL_base = (\<lambda>s base. Inl (JsError ''Invalid URL'')),
      fetch = sample_fetch,
      writeFileSync = sample_writeFileSync,
      path_join = (\<lambda>d f. d @ ''/'' @ f),
      JSDOM = (\<lambda>html. Inr \<lparr>all_elements = [], body_textContent = None, ld_json_scripts = []\<rparr>),
      JSON_parse = (\<lambda>s. Inl (JsError ''Unexpected end of JSON input'')),
      OUTPUT_DIR = ''/out''\<rparr>"

section \<open>Regular expressions: the matcher behind \<^verbatim>\<open>String.prototype.match\<close>\<close>

text \<open>
  The patterns of lines 170-175 and 182-184 use literal characters, character classes,
  sequencing, the greedy quantifiers \<^verbatim>\<open>?\<close>, \<^verbatim>\<open>*\<close>, \<^verbatim>\<open>+\<close>, \<^verbatim>\<open>{m,n}\<close>, \<^verbatim>\<open>{m,}\<close> and the
  assertion \<^verbatim>\<open>$\<close>. \<open>Repeat min max r\<close> is \<open>r\<close> with the quantifier \<^verbatim>\<open>{min,max}\<close>, \<open>None\<close> for
  no upper bound. A class is a list of single characters, ranges and the escape \<^verbatim>\<open>\s\<close>,
  negated when the flag is set.
\<close>

datatype class_item = Single char | Range char char | WhiteSpace

datatype regex =
    Empty
  | Lit char
  | Class bool "class_item list"
  | EndOfInput
  | Seq regex regex
  | Repeat nat "nat option" regex

text \<open>
  \<^verbatim>\<open>Canonicalize\<close> of the ECMAScript standard without the \<^verbatim>\<open>u\<close> flag, on code units below
  256: with \<^verbatim>\<open>ignoreCase\<close> a code unit is replaced by its upper-case form when that is a
  single code unit; the letters a-z and the Latin-1 small letters 0xE0-0xFE (without the
  division sign) move down by 32. \<open>same_canonical\<close> lists the code units that have the
  canonical form of the given one.
\<close>

definition Canonicalize :: "bool \<Rightarrow> nat \<Rightarrow> nat" where
  "Canonicalize ignoreCase n =
     (if ignoreCase \<and> ((97 \<le> n \<and> n \<le> 122) \<or> (224 \<le> n \<and> n \<le> 254 \<and> n \<noteq> 247))
      then n - 32 else n)"

definition same_canonical :: "bool \<Rightarrow> nat \<Rightarrow> nat list" where
  "same_canonical ignoreCase n =
     (let u = Canonicalize ignoreCase n
      in if ignoreCase \<and> ((65 \<le> u \<and> u \<le> 90) \<or> (192 \<le> u \<and> u \<le> 222 \<and> u \<noteq> 215))
         then [u, u + 32] else [u])"

text \<open>The white space of \<^verbatim>\<open>\s\<close> and of \<^verbatim>\<open>trim\<close> below 256: TAB, LF, VT, FF, CR, SP, NBSP.\<close>

definition is_space :: "char \<Rightarrow> bool" where
  "is_space c = ((of_char c :: nat) \<in> set [9, 10, 11, 12, 13, 32, 160])"

fun item_has :: "class_item \<Rightarrow> nat \<Rightarrow> bool" where
  "item_has (Single c) n = (n = of_char c)"
| "item_has (Range lo hi) n = (of_char lo \<le> n \<and> n \<le> of_char hi)"
| "item_has WhiteSpace n = (n \<in> set [9, 10, 11, 12, 13, 32, 160])"

text \<open>
  A class matches a character when some member of the class has the canonical form of the
  character; a negated class matches when none has.
\<close>

definition CharacterSetMatcher :: "bool \<Rightarrow> bool \<Rightarrow> class_item list \<Rightarrow> char \<Rightarrow> bool" where
  "CharacterSetMatcher ignoreCase invert items ch =
     (list_ex (\<lambda>item. list_ex (item_has item) (same_canonical ignoreCase (of_char ch))) items
        \<noteq> invert)"

primrec rsize :: "regex \<Rightarrow> nat" where
  "rsize Empty = 0"
| "rsize (Lit c) = 0"
| "rsize (Class neg items) = 0"
| "rsize EndOfInput = 0"
| "rsize (Seq r1 r2) = Suc (rsize r1 + rsize r2)"
| "rsize (Repeat mn mx r) = Suc (rsize r)"

text \<open>
  The backtracking matcher. \<open>ends ic r s\<close> lists what is left of \<open>s\<close> after each way of
  matching \<open>r\<close> at the start of \<open>s\<close>, in the order in which backtracking tries them: the head of
  the list is the match the engine reports. A quantifier is greedy; as in the standard's
  \<^verbatim>\<open>RepeatMatcher\<close>, once the minimum is reached an iteration that consumes nothing is
  rejected.
\<close>

function ends :: "bool \<Rightarrow> regex \<Rightarrow> string \<Rightarrow> string list" where
  "ends ic Empty s = [s]"
| "ends ic (Lit c) s =
     (case s of
        [] \<Rightarrow> []
      | x # xs \<Rightarrow> if Canonicalize ic (of_char x) = Canonicalize ic (of_char c) then [xs] else [])"
| "ends ic (Class neg items) s =
     (case s of [] \<Rightarrow> [] | x # xs \<Rightarrow> if CharacterSetMatcher ic neg items x then [xs] else [])"
| "ends ic EndOfInput s = (if s = [] then [s] else [])"
| "ends ic (Seq r1 r2) s = concat (map (ends ic r2) (ends ic r1 s))"
| "ends ic (Repeat mn mx r) s =
     (if mx = Some 0 then [s]
      else
        concat (map (\<lambda>s'. if mn = 0 \<and> \<not> length s' < length s then []
                           else ends ic (Repeat (mn - 1) (map_option (\<lambda>m. m - 1) mx) r) s')
                    (ends ic r s))
        @ (if mn = 0 then [s] else []))"
  by pat_completeness auto
termination
  by (relation "inv_image (less_than <*lex*> less_than <*lex*> less_than)
         (\<lambda>(ic, r, s). (rsize r, (case r of Repeat mn mx r' \<Rightarrow> mn | _ \<Rightarrow> 0), length s))") auto

text \<open>
  \<^verbatim>\<open>text.match(pattern)\<close> for a pattern with the \<^verbatim>\<open>g\<close> flag: the matches from left to right,
  each search starting where the previous match ended (one further after an empty match);
  the empty list stands for \<^verbatim>\<open>null\<close>.
\<close>

function match_all :: "bool \<Rightarrow> regex \<Rightarrow> string \<Rightarrow> string list" where
  "match_all ic r s =
     (case ends ic r s of
        [] \<Rightarrow> (case s of [] \<Rightarrow> [] | x # rest \<Rightarrow> match_all ic r rest)
      | e # es \<Rightarrow>
          if length e < length s then take (length s - length e) s # match_all ic r e
          else [] # (case s of [] \<Rightarrow> [] | x # rest \<Rightarrow> match_all ic r rest))"
  by pat_completeness auto
termination
  by (relation "measure (\<lambda>(ic, r, s). length s)") auto

text \<open>
  \<^verbatim>\<open>s.replace(pattern, "")\<close> for a pattern without the \<^verbatim>\<open>g\<close> flag: the leftmost match is
  removed, and \<open>s\<close> is returned as it is when there is none.
\<close>

fun replace_first :: "bool \<Rightarrow> regex \<Rightarrow> string \<Rightarrow> string" where
  "replace_first ic r [] = (case ends ic r [] of [] \<Rightarrow> [] | e # es \<Rightarrow> e)"
| "replace_first ic r (x # xs) =
     (case ends ic r (x # xs) of [] \<Rightarrow> x # replace_first ic r xs | e # es \<Rightarrow> e)"

text \<open>
  \<^verbatim>\<open>pattern.test(s)\<close> for a pattern that starts with \<^verbatim>\<open>^\<close>: such a pattern can match at
  index 0 only, so the test is whether the rest of the pattern matches there.
\<close>

definition test_at_start :: "bool \<Rightarrow> regex \<Rightarrow> string \<Rightarrow> bool" where
  "test_at_start ic r s = (ends ic r s \<noteq> [])"

fun seqs :: "regex list \<Rightarrow> regex" where
  "seqs [] = Empty"
| "seqs [r] = r"
| "seqs (r # rs) = Seq r (seqs rs)"

section \<open>The URL extractor (lines 167-205)\<close>

text \<open>The class \<^verbatim>\<open>[^\s"'<>{}|\\^`\[\]]\<close>.\<close>

definition url_char :: regex where
  "url_char =
     Class True [WhiteSpace, Single (CHR 0x22), Single (CHR 0x27), Single CHR ''<'', Single CHR ''>'',
       Single CHR ''{'', Single CHR ''}'', Single CHR ''|'', Single (CHR 0x5C), Single CHR ''^'',
       Single (CHR 0x60), Single CHR ''['', Single CHR '']'']"

definition alnum :: regex where
  "alnum = Class False [Range CHR ''a'' CHR ''z'', Range CHR ''A'' CHR ''Z'', Range CHR ''0'' CHR ''9'']"

definition alnum_dash :: regex where
  "alnum_dash =
     Class False [Range CHR ''a'' CHR ''z'', Range CHR ''A'' CHR ''Z'', Range CHR ''0'' CHR ''9'',
       Single CHR ''-'']"

text \<open>\<^verbatim>\<open>[a-zA-Z0-9]([a-zA-Z0-9\-]{0,61}[a-zA-Z0-9])?\<close>\<close>

definition host_label :: regex where
  "host_label = Seq alnum (Repeat 0 (Some 1) (Seq (Repeat 0 (Some 61) alnum_dash) alnum))"

text \<open>The four patterns of \<^verbatim>\<open>urlPatterns\<close>, all with the flags \<^verbatim>\<open>gi\<close>.\<close>

definition pattern_absolute :: regex where
  "pattern_absolute =
     seqs [Lit CHR ''h'', Lit CHR ''t'', Lit CHR ''t'', Lit CHR ''p'', Repeat 0 (Some 1) (Lit CHR ''s''),
       Lit CHR '':'', Lit CHR ''/'', Lit CHR ''/'', Repeat 1 None url_char]"

definition pattern_protocol_relative :: regex where
  "pattern_protocol_relative = seqs [Lit CHR ''/'', Lit CHR ''/'', Repeat 1 None url_char]"

definition pattern_hostname :: regex where
  "pattern_hostname =
     seqs [host_label, Repeat 0 None (Seq (Lit CHR ''.'') host_label), Lit CHR ''.'',
       Repeat 2 None (Class False [Range CHR ''a'' CHR ''z'', Range CHR ''A'' CHR ''Z'']),
       Repeat 0 (Some 1) (Seq (Lit CHR ''/'') (Repeat 0 None url_char))]"

definition pattern_root_relative :: regex where
  "pattern_root_relative = seqs [Lit CHR ''/'', Repeat 1 None url_char]"

definition urlPatterns :: "regex list" where
  "urlPatterns = [pattern_absolute, pattern_protocol_relative, pattern_hostname, pattern_root_relative]"

text \<open>\<^verbatim>\<open>/[.,;!?]+$/\<close> of line 182 and, after its \<^verbatim>\<open>^\<close>, \<^verbatim>\<open>/^[.,;!?\/]+$/\<close> of line 184.\<close>

definition trailing_punctuation :: regex where
  "trailing_punctuation =
     Seq (Repeat 1 None (Class False [Single CHR ''.'', Single CHR '','', Single CHR '';'',
            Single CHR ''!'', Single CHR ''?''])) EndOfInput"

definition only_punctuation :: regex where
  "only_punctuation =
     Seq (Repeat 1 None (Class False [Single CHR ''.'', Single CHR '','', Single CHR '';'',
            Single CHR ''!'', Single CHR ''?'', Single CHR ''/''])) EndOfInput"

definition trim :: "string \<Rightarrow> string" where
  "trim s = dropWhile is_space (rev (dropWhile is_space (rev s)))"

text \<open>
  A JavaScript \<^verbatim>\<open>Set\<close> of strings is the list of its elements in insertion order, without
  duplicates.
\<close>

definition set_add :: "'a \<Rightarrow> 'a list \<Rightarrow> 'a list" where
  "set_add x xs = (if x \<in> set xs then xs else xs @ [x])"

definition add_all :: "'a list \<Rightarrow> 'a list \<Rightarrow> 'a list" where
  "add_all found urls = foldl (\<lambda>acc u. set_add u acc) urls found"

definition cleanUrl :: "string \<Rightarrow> string" where
  "cleanUrl m = replace_first False trailing_punctuation (trim m)"

definition extractUrlsFromText :: "string \<Rightarrow> string list" where
  "extractUrlsFromText txt =
     foldl (\<lambda>urls pattern.
        foldl (\<lambda>urls m.
           if length (cleanUrl m) > 2 \<and> \<not> test_at_start False only_punctuation (cleanUrl m)
           then set_add (cleanUrl m) urls else urls)
          urls (match_all True pattern txt))
       [] urlPatterns"

text \<open>
  \<^verbatim>\<open>extractUrlsFromJson\<close> adds to the set it is given and can throw: an object with an own
  property \<^verbatim>\<open>hasOwnProperty\<close> shadows the method the loop calls, and the call throws a
  \<^verbatim>\<open>TypeError\<close> at the first key. What was added before the throw stays in the set. The
  properties of an object are listed in the order of \<^verbatim>\<open>for ... in\<close>.
\<close>

fun extractUrlsFromJson :: "json \<Rightarrow> string list \<Rightarrow> (js_error + unit) \<times> string list"
  and walk_elements :: "json list \<Rightarrow> string list \<Rightarrow> (js_error + unit) \<times> string list"
  and walk_properties :: "(string \<times> json) list \<Rightarrow> string list \<Rightarrow> (js_error + unit) \<times> string list"
where
  "extractUrlsFromJson (JString s) urls = (Inr (), add_all (extractUrlsFromText s) urls)"
| "extractUrlsFromJson (JArray xs) urls = walk_elements xs urls"
| "extractUrlsFromJson (JObject kvs) urls =
     (if kvs \<noteq> [] \<and> ''hasOwnProperty'' \<in> set (map fst kvs)
      then (Inl (JsError ''obj.hasOwnProperty is not a function''), urls)
      else walk_properties kvs urls)"
| "extractUrlsFromJson JNull urls = (Inr (), urls)"
| "extractUrlsFromJson (JBool b) urls = (Inr (), urls)"
| "extractUrlsFromJson (JNumber n) urls = (Inr (), urls)"
| "walk_elements [] urls = (Inr (), urls)"
| "walk_elements (x # xs) urls =
     (case extractUrlsFromJson x urls of
        (Inl e, urls') \<Rightarrow> (Inl e, urls')
      | (Inr u, urls') \<Rightarrow> walk_elements xs urls')"
| "walk_properties [] urls = (Inr (), urls)"
| "walk_properties (kv # kvs) urls =
     (case extractUrlsFromJson (snd kv) urls of
        (Inl e, urls') \<Rightarrow> (Inl e, urls')
      | (Inr u, urls') \<Rightarrow> walk_properties kvs urls')"

section \<open>The document scanner: \<^verbatim>\<open>extractUrls\<close> (lines 107-165)\<close>

text \<open>
  The function returns the sorted list, or reports the error and ends the process with
  exit code 1.
\<close>

datatype 'a run = Exit nat string | Return 'a

definition scan_attributes :: "(string \<times> string) list list \<Rightarrow> string list" where
  "scan_attributes allElements =
     foldl (\<lambda>urls attributes.
        foldl (\<lambda>urls attr.
           if snd attr \<noteq> [] \<and> trim (snd attr) \<noteq> []
           then add_all (extractUrlsFromText (trim (snd attr))) urls else urls)
          urls attributes)
       [] allElements"

definition scan_scripts :: "env \<Rightarrow> string list \<Rightarrow> string list \<Rightarrow> string list" where
  "scan_scripts w scripts urls =
     foldl (\<lambda>urls script.
        case JSON_parse w script of
          Inl e \<Rightarrow> urls
        | Inr jsonData \<Rightarrow> snd (extractUrlsFromJson jsonData urls))
       urls scripts"

definition absolutize :: "env \<Rightarrow> string \<Rightarrow> string list \<Rightarrow> string list" where
  "absolutize w base urls =
     foldl (\<lambda>absoluteUrls u.
        case new_URL_base w u base of
          Inl e \<Rightarrow> set_add u absoluteUrls
        | Inr absoluteUrl \<Rightarrow> set_add (href absoluteUrl) absoluteUrls)
       [] urls"

definition extractUrls :: "env \<Rightarrow> string \<Rightarrow> string list run \<times> action list" where
  "extractUrls w u =
     (case io_bind (do_fetch w GET u) (\<lambda>response.
             if \<not> ok response then
               (Inl (JsError (''HTTP error! status: '' @ show_nat (status response))), [])
             else
               io_bind (io_lift (body_text response)) (\<lambda>html.
                 io_bind (io_lift (JSDOM w html)) (\<lambda>document.
                   let urls = scan_attributes (all_elements document);
                       textContent = (case body_textContent document of None \<Rightarrow> [] | Some t \<Rightarrow> t);
                       urls = add_all (extractUrlsFromText textContent) urls;
                       urls = scan_scripts w (ld_json_scripts document) urls
                   in io_return (sort (absolutize w (resp_url response) urls))))) of
        (Inl e, t) \<Rightarrow> (Exit 1 (''Error: '' @ message e), t)
      | (Inr result, t) \<Rightarrow> (Return result, t))"

section \<open>A sample page\<close>

text \<open>
  The page of the scenario, served at \<^verbatim>\<open>https://page-origin/\<close>: a JSON-LD script in the
  head, and an image and a sentence in the body. \<open>page_env\<close> gives what the platform
  answers for it: the response, the parsed document, the parsed JSON and the URLs resolved
  against the address of the page.
\<close>

definition page_html :: string where
  "page_html =
     ''<html><head><script type='' @ [CHR 0x22] @ ''application/ld+json'' @ [CHR 0x22] @ ''>''
     @ ''{'' @ [CHR 0x22] @ ''font'' @ [CHR 0x22] @ '':'' @ [CHR 0x22]
     @ ''https://cdn.example.com/c.otf'' @ [CHR 0x22] @ ''}''
     @ ''</script></head><body><img src='' @ [CHR 0x22] @ ''/fonts/a.woff2'' @ [CHR 0x22] @ ''>''
     @ ''see https://cdn.example.com/b.ttf now</body></html>''"

definition page_json_text :: string where
  "page_json_text =
     ''{'' @ [CHR 0x22] @ ''font'' @ [CHR 0x22] @ '':'' @ [CHR 0x22]
     @ ''https://cdn.example.com/c.otf'' @ [CHR 0x22] @ ''}''"

definition page_document :: document where
  "page_document =
     \<lparr>all_elements = [[], [], [(''type'', ''application/ld+json'')], [], [(''src'', ''/fonts/a.woff2'')]],
      body_textContent = Some ''see https://cdn.example.com/b.ttf now'',
      ld_json_scripts = [page_json_text]\<rparr>"

definition page_resolve :: "string \<Rightarrow> string \<Rightarrow> js_error + url_obj" where
  "page_resolve s base =
     (if base \<noteq> ''https://page-origin/'' then Inl (JsError ''Invalid URL'')
      else if s = ''/fonts/a.woff2'' then Inr (mk_url ''https:'' ''page-origin'' ''/fonts/a.woff2'' [] [])
      else if s = ''a.woff'' then Inr (mk_url ''https:'' ''page-origin'' ''/a.woff'' [] [])
      else if s = ''/ld+json'' then Inr (mk_url ''https:'' ''page-origin'' ''/ld+json'' [] [])
      else if s = ''https://cdn.example.com/b.ttf'' \<or> s = ''//cdn.example.com/b.ttf'' then
        Inr (mk_url ''https:'' ''cdn.example.com'' ''/b.ttf'' [] [])
      else if s = ''cdn.example.com/b.ttf'' then
        Inr (mk_url ''https:'' ''page-origin'' ''/cdn.example.com/b.ttf'' [] [])
      else if s = ''https://cdn.example.com/c.otf'' \<or> s = ''//cdn.example.com/c.otf'' then
        Inr (mk_url ''https:'' ''cdn.example.com'' ''/c.otf'' [] [])
      else if s = ''cdn.example.com/c.otf'' then
        Inr (mk_url ''https:'' ''page-origin'' ''/cdn.example.com/c.otf'' [] [])
      else Inl (JsError ''Invalid URL''))"

definition page_env :: env where
  "page_env =
     \<lparr>new_URL = sample_new_URL,
      new_URL_base = page_resolve,
      fetch = (\<lambda>m u. if u = ''https://page-origin/''
                 then Inr \<lparr>ok = True, status = 200, resp_url = ''https://page-origin/'',
                           body_text = Inr page_html, arrayBuffer = Inr []\<rparr>
                 else Inl (JsError ''getaddrinfo ENOTFOUND'')),
      writeFileSync = sample_writeFileSync,
      path_join = (\<lambda>d f. d @ ''/'' @ f),
      JSDOM = (\<lambda>html. if html = page_html then Inr page_document
                 else Inr \<lparr>all_elements = [], body_textContent = None, ld_json_scripts = []\<rparr>),
      JSON_parse = (\<lambda>s. if s = page_json_text
                 then Inr (JObject [(''font'', JString ''https://cdn.example.com/c.otf'')])
                 else Inl (JsError ''Unexpected token'')),
      OUTPUT_DIR = ''/out''\<rparr>"

text \<open>The text formed from a result set: its elements in order, separated by \<open>sep\<close>.\<close>

fun join_with :: "char \<Rightarrow> string list \<Rightarrow> string" where
  "join_with sep [] = []"
| "join_with sep [x] = x"
| "join_with sep (x # xs) = x @ [sep] @ join_with sep xs"


section \<open>The cleaning of a match as the specification words it\<close>

text \<open>
  Strip the trailing run of characters from \<^verbatim>\<open>. , ; ! ?\<close>; consist entirely of punctuation
  and slash characters; be a contiguous part of a string. \<open>accepts ic r c\<close> says that some
  character position of the pattern \<open>r\<close> matches \<open>c\<close>.
\<close>

definition strip_trailing_punctuation :: "string \<Rightarrow> string" where
  "strip_trailing_punctuation s = rev (dropWhile (\<lambda>c. c \<in> set ''.,;!?'') (rev s))"

definition only_punctuation_or_slash :: "string \<Rightarrow> bool" where
  "only_punctuation_or_slash s = (s \<noteq> [] \<and> list_all (\<lambda>c. c \<in> set ''.,;!?/'') s)"

definition substring_of :: "string \<Rightarrow> string \<Rightarrow> bool" where
  "substring_of u v = (\<exists>pre post. v = pre @ u @ post)"

primrec accepts :: "bool \<Rightarrow> regex \<Rightarrow> char \<Rightarrow> bool" where
  "accepts ic Empty c = False"
| "accepts ic (Lit a) c = (Canonicalize ic (of_char c) = Canonicalize ic (of_char a))"
| "accepts ic (Class neg items) c = CharacterSetMatcher ic neg items c"
| "accepts ic EndOfInput c = False"
| "accepts ic (Seq r1 r2) c = (accepts ic r1 c \<or> accepts ic r2 c)"
| "accepts ic (Repeat mn mx r) c = accepts ic r c"


section \<open>Properties of the batched executor\<close>



declare show_nat.simps [simp del]
declare chunks.simps [simp del]

lemma CONCURRENCY_LIMIT_pos: "1 \<le> CONCURRENCY_LIMIT c"
  by (simp add: CONCURRENCY_LIMIT_def split: option.splits)

lemma Promise_all_total:
  assumes "\<forall>u \<in> set xs. \<exists>v. fst (op u) = Inr v"
  shows "Promise_all (map op xs) = (Inr (map (\<lambda>u. projr (fst (op u))) xs), concat (map (\<lambda>u. snd (op u)) xs))"
  using assms
proof (induction xs)
  case Nil
  then show ?case by simp
next
  case (Cons x xs)
  then obtain v where v: "fst (op x) = Inr v" by auto
  from Cons have IH: "Promise_all (map op xs) = (Inr (map (\<lambda>u. projr (fst (op u))) xs), concat (map (\<lambda>u. snd (op u)) xs))"
    by simp
  show ?case using v IH by (cases "op x") simp
qed

lemma chunks_concat: "1 \<le> limit \<Longrightarrow> concat (chunks limit xs) = xs"
proof (induction limit xs rule: chunks.induct)
  case (1 limit xs)
  then show ?case by (subst chunks.simps) auto
qed

lemma chunks_sizes: "c \<in> set (chunks limit xs) \<Longrightarrow> 0 < length c \<and> length c \<le> limit"
proof (induction limit xs rule: chunks.induct)
  case (1 limit xs)
  show ?case
  proof (cases "xs = [] \<or> limit = 0")
    case True
    with "1.prems" show ?thesis by (subst (asm) chunks.simps) simp
  next
    case False
    with "1.prems" have "c = take limit xs \<or> c \<in> set (chunks limit (drop limit xs))"
      by (subst (asm) chunks.simps) simp
    then show ?thesis
    proof
      assume "c = take limit xs"
      with False show ?thesis by simp
    next
      assume "c \<in> set (chunks limit (drop limit xs))"
      with False "1.IH" show ?thesis by simp
    qed
  qed
qed

lemma chunks_full: "c \<in> set (butlast (chunks limit xs)) \<Longrightarrow> length c = limit"
proof (induction limit xs rule: chunks.induct)
  case (1 limit xs)
  show ?case
  proof (cases "xs = [] \<or> limit = 0")
    case True
    with "1.prems" show ?thesis by (subst (asm) chunks.simps) simp
  next
    case False
    then have eq: "chunks limit xs = take limit xs # chunks limit (drop limit xs)"
      by (subst chunks.simps) simp
    show ?thesis
    proof (cases "chunks limit (drop limit xs) = []")
      case True
      with "1.prems" eq show ?thesis by simp
    next
      case ne: False
      then have "drop limit xs \<noteq> []" by (subst (asm) chunks.simps) (auto split: if_splits)
      then have len: "limit < length xs" by simp
      from "1.prems" eq ne have "c = take limit xs \<or> c \<in> set (butlast (chunks limit (drop limit xs)))"
        by simp
      then show ?thesis
      proof
        assume "c = take limit xs"
        with len show ?thesis by simp
      next
        assume "c \<in> set (butlast (chunks limit (drop limit xs)))"
        with False "1.IH" show ?thesis by simp
      qed
    qed
  qed
qed

lemma batch_loop_chunks:
  assumes "1 \<le> limit"
  shows "batch_loop limit op urls i results trace =
     Some (io_bind (Inr results, trace) (\<lambda>done.
             io_bind (run_chunks op (chunks limit (drop i urls))) (\<lambda>rest. io_return (done @ rest))))"
proof (induction "length urls - i" arbitrary: i results trace rule: less_induct)
  case less
  show ?case
  proof (cases "i < length urls")
    case False
    then have "chunks limit (drop i urls) = []" by (subst chunks.simps) simp
    with False show ?thesis
      by (subst batch_loop.simps) (simp add: io_bind_def io_return_def)
  next
    case True
    with assms have ch: "chunks limit (drop i urls) = slice urls i (i + limit) # chunks limit (drop (i + limit) urls)"
      by (subst chunks.simps) (simp add: slice_def add.commute)
    obtain r t where pa: "Promise_all (map op (slice urls i (i + limit))) = (r, t)"
      by (cases "Promise_all (map op (slice urls i (i + limit)))")
    show ?thesis
    proof (cases r)
      case (Inl e)
      with pa True ch show ?thesis
        by (subst batch_loop.simps) (simp add: io_bind_def io_return_def)
    next
      case (Inr rs)
      from True assms have "length urls - (i + limit) < length urls - i" by simp
      from less[OF this] have IH: "batch_loop limit op urls (i + limit) (results @ rs) (trace @ t) =
         Some (io_bind (Inr (results @ rs), trace @ t) (\<lambda>done.
             io_bind (run_chunks op (chunks limit (drop (i + limit) urls))) (\<lambda>rest. io_return (done @ rest))))" .
      obtain r' t' where rc: "run_chunks op (chunks limit (drop (i + limit) urls)) = (r', t')"
        by (cases "run_chunks op (chunks limit (drop (i + limit) urls))")
      have "batch_loop limit op urls i results trace = batch_loop limit op urls (i + limit) (results @ rs) (trace @ t)"
        using True pa Inr by (subst batch_loop.simps) simp
      also note IH
      finally show ?thesis using pa Inr ch rc
        by (cases r') (simp_all add: io_bind_def io_return_def)
    qed
  qed
qed

lemma run_chunks_total:
  assumes "\<forall>u \<in> set (concat cs). \<exists>v. fst (op u) = Inr v"
  shows "run_chunks op cs = (Inr (map (\<lambda>u. projr (fst (op u))) (concat cs)), concat (map (\<lambda>u. snd (op u)) (concat cs)))"
  using assms
proof (induction cs)
  case Nil
  then show ?case by simp
next
  case (Cons c cs)
  then have a: "Promise_all (map op c) = (Inr (map (\<lambda>u. projr (fst (op u))) c), concat (map (\<lambda>u. snd (op u)) c))"
    by (intro Promise_all_total) simp
  from Cons have b: "run_chunks op cs = (Inr (map (\<lambda>u. projr (fst (op u))) (concat cs)), concat (map (\<lambda>u. snd (op u)) (concat cs)))"
    by simp
  show ?case by (simp add: a b io_bind_def io_return_def)
qed

lemma batch_loop_total:
  assumes "1 \<le> limit" and "\<forall>u \<in> set urls. \<exists>v. fst (op u) = Inr v"
  shows "batch_loop limit op urls 0 [] [] =
     Some (Inr (map (\<lambda>u. projr (fst (op u))) urls), concat (map (\<lambda>u. snd (op u)) urls))"
proof -
  have c: "concat (chunks limit urls) = urls" using assms(1) by (rule chunks_concat)
  have "run_chunks op (chunks limit urls) = (Inr (map (\<lambda>u. projr (fst (op u))) urls), concat (map (\<lambda>u. snd (op u)) urls))"
    using run_chunks_total[of "chunks limit urls" op] assms(2) c by simp
  then show ?thesis
    by (simp add: batch_loop_chunks[OF assms(1)] io_bind_def io_return_def)
qed


subsection \<open>The per-item operations\<close>

lemma testUrl_value:
  "testUrl w u = (Inr (case fetch w HEAD u of Inl e \<Rightarrow> False | Inr r \<Rightarrow> ok r), [Fetch HEAD u])"
  by (simp add: testUrl_def try_catch_def io_bind_def io_return_def do_fetch_def split: sum.splits)

lemma testUrls_op_value:
  "testUrls_op w u =
     (Inr \<lparr>url = u, accessible = (case fetch w HEAD u of Inl e \<Rightarrow> False | Inr r \<Rightarrow> ok r)\<rparr>,
      [Fetch HEAD u])"
  by (simp add: testUrls_op_def testUrl_value io_bind_def io_return_def)

lemma try_catch_total:
  assumes "\<And>e. \<exists>v. fst (handler e) = Inr v"
  shows "\<exists>v. fst (try_catch m handler) = Inr v"
proof (cases m)
  case (Pair r t)
  show ?thesis
  proof (cases r)
    case (Inl e)
    from assms[of e] obtain v where "fst (handler e) = Inr v" ..
    with Pair Inl show ?thesis by (cases "handler e") (simp add: try_catch_def)
  next
    case (Inr v)
    with Pair show ?thesis by (simp add: try_catch_def)
  qed
qed

lemma downloadFontFiles_op_total: "\<exists>v. fst (downloadFontFiles_op w u) = Inr v"
  unfolding downloadFontFiles_op_def
  by (rule try_catch_total) (simp add: io_return_def)

lemma testUrls_op_total: "\<exists>v. fst (testUrls_op w u) = Inr v"
  by (simp add: testUrls_op_value)

lemma batch_loop_indexed:
  assumes "1 \<le> limit" and "\<forall>u \<in> set urls. \<exists>v. fst (op u) = Inr v"
  shows "\<exists>results trace. batch_loop limit op urls 0 [] [] = Some (Inr results, trace)
           \<and> length results = length urls
           \<and> (\<forall>k < length urls. fst (op (urls ! k)) = Inr (results ! k))"
proof -
  let ?rs = "map (\<lambda>u. projr (fst (op u))) urls"
  have "\<forall>k < length urls. fst (op (urls ! k)) = Inr (?rs ! k)"
  proof (intro allI impI)
    fix k assume k: "k < length urls"
    then have "urls ! k \<in> set urls" by simp
    with assms(2) obtain v where "fst (op (urls ! k)) = Inr v" by blast
    with k show "fst (op (urls ! k)) = Inr (?rs ! k)" by simp
  qed
  with batch_loop_total[OF assms] show ?thesis by simp
qed

lemma batch_loop_run_chunks:
  assumes "1 \<le> limit"
  shows "batch_loop limit op urls 0 [] [] = Some (run_chunks op (chunks limit urls))"
proof -
  obtain r t where rc: "run_chunks op (chunks limit urls) = (r, t)"
    by (cases "run_chunks op (chunks limit urls)")
  show ?thesis
    by (cases r) (simp_all add: batch_loop_chunks[OF assms] rc io_bind_def io_return_def)
qed

text \<open>
  Claim C1. For every list of items and every limit computed at line 27, the batched loop run
  with an operation that does not reject, and so the loop of \<^verbatim>\<open>testUrls\<close> and the loop of
  \<^verbatim>\<open>downloadFontFiles\<close>, returns, and returns exactly one result per item, at the index of
  the item. The loop is the sequential processing of the consecutive chunks of the input:
  the chunks concatenate to the input, every chunk but the last has exactly
  \<open>CONCURRENCY_LIMIT\<close> items and no chunk is empty or longer.
\<close>

theorem batched_executor_one_result_per_item:
  fixes op :: "'a \<Rightarrow> 'r io"
  shows "((\<forall>x \<in> set items. \<exists>v. fst (op x) = Inr v) \<longrightarrow>
            (\<exists>results trace. batch_loop (CONCURRENCY_LIMIT c) op items 0 [] [] = Some (Inr results, trace)
               \<and> length results = length items
               \<and> (\<forall>k < length items. fst (op (items ! k)) = Inr (results ! k))))
       \<and> (\<exists>results trace. testUrls_results w (CONCURRENCY_LIMIT c) urls = Some (Inr results, trace)
               \<and> length results = length urls
               \<and> (\<forall>k < length urls. fst (testUrls_op w (urls ! k)) = Inr (results ! k)))
       \<and> (\<exists>results trace. downloadFontFiles_results w (CONCURRENCY_LIMIT c) urls = Some (Inr results, trace)
               \<and> length results = length urls
               \<and> (\<forall>k < length urls. fst (downloadFontFiles_op w (urls ! k)) = Inr (results ! k)))
       \<and> batch_loop (CONCURRENCY_LIMIT c) op items 0 [] []
            = Some (run_chunks op (chunks (CONCURRENCY_LIMIT c) items))
       \<and> concat (chunks (CONCURRENCY_LIMIT c) items) = items
       \<and> (\<forall>b \<in> set (butlast (chunks (CONCURRENCY_LIMIT c) items)). length b = CONCURRENCY_LIMIT c)
       \<and> (\<forall>b \<in> set (chunks (CONCURRENCY_LIMIT c) items).
             0 < length b \<and> length b \<le> CONCURRENCY_LIMIT c)"
proof -
  note L = CONCURRENCY_LIMIT_pos[of c]
  have a: "(\<forall>x \<in> set items. \<exists>v. fst (op x) = Inr v) \<longrightarrow>
            (\<exists>results trace. batch_loop (CONCURRENCY_LIMIT c) op items 0 [] [] = Some (Inr results, trace)
               \<and> length results = length items
               \<and> (\<forall>k < length items. fst (op (items ! k)) = Inr (results ! k)))"
    using batch_loop_indexed[OF L] by blast
  have b: "\<exists>results trace. testUrls_results w (CONCURRENCY_LIMIT c) urls = Some (Inr results, trace)
               \<and> length results = length urls
               \<and> (\<forall>k < length urls. fst (testUrls_op w (urls ! k)) = Inr (results ! k))"
    unfolding testUrls_results_def
    by (rule batch_loop_indexed[OF L]) (simp add: testUrls_op_total)
  have d: "\<exists>results trace. downloadFontFiles_results w (CONCURRENCY_LIMIT c) urls = Some (Inr results, trace)
               \<and> length results = length urls
               \<and> (\<forall>k < length urls. fst (downloadFontFiles_op w (urls ! k)) = Inr (results ! k))"
    unfolding downloadFontFiles_results_def
    by (rule batch_loop_indexed[OF L]) (simp add: downloadFontFiles_op_total)
  have e: "batch_loop (CONCURRENCY_LIMIT c) op items 0 [] []
            = Some (run_chunks op (chunks (CONCURRENCY_LIMIT c) items))"
    by (rule batch_loop_run_chunks[OF L])
  have f: "concat (chunks (CONCURRENCY_LIMIT c) items) = items"
    by (rule chunks_concat[OF L])
  have g: "\<forall>b \<in> set (butlast (chunks (CONCURRENCY_LIMIT c) items)). length b = CONCURRENCY_LIMIT c"
    using chunks_full by blast
  have h: "\<forall>b \<in> set (chunks (CONCURRENCY_LIMIT c) items).
             0 < length b \<and> length b \<le> CONCURRENCY_LIMIT c"
    using chunks_sizes by blast
  from a b d e f g h show ?thesis by blast
qed

theorem batched_executor_one_result_per_item_witness:
  "batch_loop (CONCURRENCY_LIMIT (Some 2)) (\<lambda>n. (Inr (n * n), [])) [1, 2, 3, 4, 5 :: nat] 0 [] []
       = Some (Inr [1, 4, 9, 16, 25], [])
   \<and> chunks (CONCURRENCY_LIMIT (Some 2)) [1, 2, 3, 4, 5 :: nat] = [[1, 2], [3, 4], [5]]
   \<and> testUrls_results sample_env (CONCURRENCY_LIMIT (Some 2))
       [''https://example.com/fonts/a.woff2'', ''https://down.example.com/c.otf'',
        ''https://example.com/fonts/b.ttf''] =
     Some (Inr [\<lparr>url = ''https://example.com/fonts/a.woff2'', accessible = True\<rparr>,
                \<lparr>url = ''https://down.example.com/c.otf'', accessible = False\<rparr>,
                \<lparr>url = ''https://example.com/fonts/b.ttf'', accessible = False\<rparr>],
           [Fetch HEAD ''https://example.com/fonts/a.woff2'', Fetch HEAD ''https://down.example.com/c.otf'',
            Fetch HEAD ''https://example.com/fonts/b.ttf''])
   \<and> (\<exists>results trace. downloadFontFiles_results sample_env (CONCURRENCY_LIMIT (Some 2))
          [''https://example.com/fonts/a.woff2'', ''https://down.example.com/c.otf'',
           ''https://example.com/fonts/b.ttf''] = Some (Inr results, trace)
        \<and> length results = 3)
   \<and> (\<exists>results trace.
      batch_loop (CONCURRENCY_LIMIT (Some 2)) (\<lambda>n. (Inr (n * n), [])) [1, 2, 3, 4, 5 :: nat] 0 [] []
        = Some (Inr results, trace :: action list)
      \<and> length results = 5)"
proof -
  have a: "batch_loop (CONCURRENCY_LIMIT (Some 2)) (\<lambda>n. (Inr (n * n), [])) [1, 2, 3, 4, 5 :: nat] 0 [] []
       = Some (Inr [1, 4, 9, 16, 25], [])"
    by code_simp
  have b: "chunks (CONCURRENCY_LIMIT (Some 2)) [1, 2, 3, 4, 5 :: nat] = [[1, 2], [3, 4], [5]]"
    by code_simp
  have d: "testUrls_results sample_env (CONCURRENCY_LIMIT (Some 2))
       [''https://example.com/fonts/a.woff2'', ''https://down.example.com/c.otf'',
        ''https://example.com/fonts/b.ttf''] =
     Some (Inr [\<lparr>url = ''https://example.com/fonts/a.woff2'', accessible = True\<rparr>,
                \<lparr>url = ''https://down.example.com/c.otf'', accessible = False\<rparr>,
                \<lparr>url = ''https://example.com/fonts/b.ttf'', accessible = False\<rparr>],
           [Fetch HEAD ''https://example.com/fonts/a.woff2'', Fetch HEAD ''https://down.example.com/c.otf'',
            Fetch HEAD ''https://example.com/fonts/b.ttf''])"
    by code_simp
  have e: "\<exists>results trace. downloadFontFiles_results sample_env (CONCURRENCY_LIMIT (Some 2))
          [''https://example.com/fonts/a.woff2'', ''https://down.example.com/c.otf'',
           ''https://example.com/fonts/b.ttf''] = Some (Inr results, trace)
        \<and> length results = 3"
  proof -
    from batched_executor_one_result_per_item
      [of "[1, 2, 3, 4, 5 :: nat]" "\<lambda>n. (Inr (n * n), [])" "Some 2" sample_env
        "[''https://example.com/fonts/a.woff2'', ''https://down.example.com/c.otf'',
          ''https://example.com/fonts/b.ttf'']"]
    obtain results trace where
      r: "downloadFontFiles_results sample_env (CONCURRENCY_LIMIT (Some 2))
          [''https://example.com/fonts/a.woff2'', ''https://down.example.com/c.otf'',
           ''https://example.com/fonts/b.ttf''] = Some (Inr results, trace)"
      and l: "length results = length [''https://example.com/fonts/a.woff2'',
           ''https://down.example.com/c.otf'', ''https://example.com/fonts/b.ttf'']"
      by blast
    from l have "length results = 3" by simp
    with r show ?thesis by blast
  qed
  have g: "\<exists>results trace.
      batch_loop (CONCURRENCY_LIMIT (Some 2)) (\<lambda>n. (Inr (n * n), [])) [1, 2, 3, 4, 5 :: nat] 0 [] []
        = Some (Inr results, trace :: action list)
      \<and> length results = 5"
  proof -
    have h: "\<forall>x \<in> set [1, 2, 3, 4, 5 :: nat]. \<exists>v. fst ((\<lambda>n. (Inr (n * n), [])) x :: nat io) = Inr v"
      by simp
    from batched_executor_one_result_per_item
      [of "[1, 2, 3, 4, 5 :: nat]" "\<lambda>n. (Inr (n * n), [])" "Some 2" sample_env "[]"] h
    obtain results trace where
      r: "batch_loop (CONCURRENCY_LIMIT (Some 2)) (\<lambda>n. (Inr (n * n), [])) [1, 2, 3, 4, 5 :: nat] 0 [] []
        = Some (Inr results, trace)"
      and l: "length results = length [1, 2, 3, 4, 5 :: nat]"
      by blast
    from l have "length results = 5" by simp
    with r show ?thesis by blast
  qed
  from a b d e g show ?thesis by blast
qed

section \<open>Paths, per-item operations and their failures\<close>


lemma last_run_all:
  "sep \<notin> set s \<Longrightarrow> rev (takeWhile (\<lambda>c. c \<noteq> sep) (rev s)) = s"
proof -
  assume "sep \<notin> set s"
  then have "\<forall>x \<in> set (rev s). x \<noteq> sep" by auto
  then have "takeWhile (\<lambda>c. c \<noteq> sep) (rev s) = rev s" by (simp only: takeWhile_eq_all_conv)
  then show ?thesis by (simp only: rev_rev_ident)
qed

lemma last_run_Cons:
  "sep \<in> set cs \<Longrightarrow>
     rev (takeWhile (\<lambda>c. c \<noteq> sep) (rev (c # cs))) = rev (takeWhile (\<lambda>c. c \<noteq> sep) (rev cs))"
proof -
  assume "sep \<in> set cs"
  then have "sep \<in> set (rev cs)" by simp
  then have "takeWhile (\<lambda>c. c \<noteq> sep) (rev cs @ [c]) = takeWhile (\<lambda>c. c \<noteq> sep) (rev cs)"
    by (intro takeWhile_append1) auto
  then show ?thesis by simp
qed

lemma last_run_sep:
  "sep \<notin> set cs \<Longrightarrow> rev (takeWhile (\<lambda>c. c \<noteq> sep) (rev (sep # cs))) = cs"
proof -
  assume "sep \<notin> set cs"
  then have "takeWhile (\<lambda>c. c \<noteq> sep) (rev cs @ [sep]) = rev cs @ takeWhile (\<lambda>c. c \<noteq> sep) [sep]"
    by (intro takeWhile_append2) auto
  then show ?thesis by simp
qed

lemma split_acc_last:
  "split_acc sep cur s \<noteq> [] \<and>
   last (split_acc sep cur s) =
     (if sep \<in> set s then rev (takeWhile (\<lambda>c. c \<noteq> sep) (rev s)) else cur @ s)"
proof (induction s arbitrary: cur)
  case Nil
  then show ?case by simp
next
  case (Cons c cs)
  show ?case
  proof (cases "c = sep")
    case True
    show ?thesis
    proof (cases "sep \<in> set cs")
      case True
      with \<open>c = sep\<close> Cons[of "[]"] last_run_Cons[of sep cs sep] show ?thesis by simp
    next
      case False
      with \<open>c = sep\<close> Cons[of "[]"] last_run_sep[of sep cs] show ?thesis by simp
    qed
  next
    case False
    show ?thesis
    proof (cases "sep \<in> set cs")
      case True
      with \<open>c \<noteq> sep\<close> Cons[of "cur @ [c]"] last_run_Cons[of sep cs c] show ?thesis by simp
    next
      case False
      with \<open>c \<noteq> sep\<close> Cons[of "cur @ [c]"] show ?thesis by simp
    qed
  qed
qed

lemma pop_split_final: "pop (split CHR ''/'' p) = Some (final_segment p)"
proof -
  have "final_segment p = (if CHR ''/'' \<in> set p then rev (takeWhile (\<lambda>c. c \<noteq> CHR ''/'') (rev p)) else p)"
    using last_run_all[of "CHR ''/''" p] by (simp add: final_segment_def)
  then show ?thesis
    using split_acc_last[of "CHR ''/''" "[]" p] by (simp add: pop_def split_def)
qed

lemma final_segment_empty_iff: "final_segment p = [] \<longleftrightarrow> p = [] \<or> last p = CHR ''/''"
  by (cases p rule: rev_cases) (auto simp: final_segment_def)

lemma final_segment_subset: "set (final_segment p) \<subseteq> set p"
  unfolding final_segment_def using set_takeWhileD[of _ _ "rev p"] by auto

lemma normalizedExt_spec: "normalizedExt ext = ''.'' @ strip_leading_dot ext"
  by (cases ext) (auto simp: normalizedExt_def strip_leading_dot_def startsWith_def)

lemma keeps_url_spec: "keeps_url w exts u = spec_keeps w exts u"
  by (simp add: keeps_url_def spec_keeps_def pop_split_final normalizedExt_spec ends_with_ci_def
      split: sum.splits)

lemma downloadFontFiles_op_cases:
  assumes "new_URL w u = Inr urlObj"
  shows "downloadFontFiles_op w u =
     (let name = final_segment (pathname urlObj) in
      if name = [] then
        (Inr \<lparr>success = False, filename = ''unknown'', error = Some ''No filename found''\<rparr>, [])
      else
        (case fetch w GET u of
           Inl e \<Rightarrow> (Inr \<lparr>success = False, filename = ''unknown'', error = Some (message e)\<rparr>, [Fetch GET u])
         | Inr r \<Rightarrow>
             if \<not> ok r then
               (Inr \<lparr>success = False, filename = name, error = Some (''HTTP '' @ show_nat (status r))\<rparr>,
                [Fetch GET u])
             else
               (case arrayBuffer r of
                  Inl e \<Rightarrow>
                    (Inr \<lparr>success = False, filename = ''unknown'', error = Some (message e)\<rparr>, [Fetch GET u])
                | Inr b \<Rightarrow>
                    (case writeFileSync w (path_join w (OUTPUT_DIR w) name) b of
                       Inl e \<Rightarrow>
                         (Inr \<lparr>success = False, filename = ''unknown'', error = Some (message e)\<rparr>,
                          [Fetch GET u, WriteFile (path_join w (OUTPUT_DIR w) name) b])
                     | Inr x \<Rightarrow>
                         (Inr \<lparr>success = True, filename = name, error = None\<rparr>,
                          [Fetch GET u, WriteFile (path_join w (OUTPUT_DIR w) name) b])))))"
  using assms
  by (simp add: downloadFontFiles_op_def pop_split_final try_catch_def io_bind_def io_return_def
      io_lift_def do_fetch_def do_writeFileSync_def Let_def split: sum.splits)

lemma downloadFontFiles_op_invalid:
  assumes "new_URL w u = Inl e"
  shows "downloadFontFiles_op w u =
     (Inr \<lparr>success = False, filename = ''unknown'', error = Some (message e)\<rparr>, [])"
  using assms
  by (simp add: downloadFontFiles_op_def try_catch_def io_bind_def io_return_def io_lift_def)


text \<open>
  Claim C2. A failure of one item never leaves a batch as a rejection. \<^verbatim>\<open>testUrl\<close> always
  returns a boolean after its one HEAD request, and returns \<^verbatim>\<open>false\<close> when the request
  throws or the status is not a success. The operation of \<^verbatim>\<open>downloadFontFiles\<close> always
  returns an outcome: a transport error, an error while reading the body and a file-system
  error become \<^verbatim>\<open>{success: false, filename: "unknown", error: message}\<close>, a non-success
  status becomes \<^verbatim>\<open>{success: false, filename, error: "HTTP <status>"}\<close>. So both loops
  return a result list, and the entry of every item is what the operation gives for that
  item alone, whatever happens to its siblings.
\<close>

theorem per_item_failures_are_results:
  "(\<exists>b. testUrl w u = (Inr b, [Fetch HEAD u]))
   \<and> ((\<exists>e. fetch w HEAD u = Inl e) \<longrightarrow> fst (testUrl w u) = Inr False)
   \<and> ((\<exists>r. fetch w HEAD u = Inr r \<and> \<not> ok r) \<longrightarrow> fst (testUrl w u) = Inr False)
   \<and> (\<exists>out. fst (downloadFontFiles_op w u) = Inr out)
   \<and> (\<forall>urlObj e. new_URL w u = Inr urlObj \<and> final_segment (pathname urlObj) \<noteq> []
          \<and> fetch w GET u = Inl e \<longrightarrow>
        fst (downloadFontFiles_op w u)
          = Inr \<lparr>success = False, filename = ''unknown'', error = Some (message e)\<rparr>)
   \<and> (\<forall>urlObj r e. new_URL w u = Inr urlObj \<and> final_segment (pathname urlObj) \<noteq> []
          \<and> fetch w GET u = Inr r \<and> ok r \<and> arrayBuffer r = Inl e \<longrightarrow>
        fst (downloadFontFiles_op w u)
          = Inr \<lparr>success = False, filename = ''unknown'', error = Some (message e)\<rparr>)
   \<and> (\<forall>urlObj r b e. new_URL w u = Inr urlObj \<and> final_segment (pathname urlObj) \<noteq> []
          \<and> fetch w GET u = Inr r \<and> ok r \<and> arrayBuffer r = Inr b
          \<and> writeFileSync w (path_join w (OUTPUT_DIR w) (final_segment (pathname urlObj))) b = Inl e \<longrightarrow>
        fst (downloadFontFiles_op w u)
          = Inr \<lparr>success = False, filename = ''unknown'', error = Some (message e)\<rparr>)
   \<and> (\<forall>urlObj r. new_URL w u = Inr urlObj \<and> final_segment (pathname urlObj) \<noteq> []
          \<and> fetch w GET u = Inr r \<and> \<not> ok r \<longrightarrow>
        fst (downloadFontFiles_op w u)
          = Inr \<lparr>success = False, filename = final_segment (pathname urlObj),
                 error = Some (''HTTP '' @ show_nat (status r))\<rparr>)
   \<and> (\<exists>results trace. testUrls_results w (CONCURRENCY_LIMIT c) urls = Some (Inr results, trace)
         \<and> results = map (\<lambda>x. projr (fst (testUrls_op w x))) urls)
   \<and> (\<exists>results trace. downloadFontFiles_results w (CONCURRENCY_LIMIT c) urls = Some (Inr results, trace)
         \<and> results = map (\<lambda>x. projr (fst (downloadFontFiles_op w x))) urls)"
proof -
  have t1: "\<exists>b. testUrl w u = (Inr b, [Fetch HEAD u])"
    by (simp add: testUrl_value)
  have t2: "(\<exists>e. fetch w HEAD u = Inl e) \<longrightarrow> fst (testUrl w u) = Inr False"
    by (auto simp: testUrl_value)
  have t3: "(\<exists>r. fetch w HEAD u = Inr r \<and> \<not> ok r) \<longrightarrow> fst (testUrl w u) = Inr False"
    by (auto simp: testUrl_value)
  have d1: "\<exists>out. fst (downloadFontFiles_op w u) = Inr out"
    by (rule downloadFontFiles_op_total)
  have d2: "\<forall>urlObj e. new_URL w u = Inr urlObj \<and> final_segment (pathname urlObj) \<noteq> []
          \<and> fetch w GET u = Inl e \<longrightarrow>
        fst (downloadFontFiles_op w u)
          = Inr \<lparr>success = False, filename = ''unknown'', error = Some (message e)\<rparr>"
    by (auto simp: downloadFontFiles_op_cases)
  have d3: "\<forall>urlObj r e. new_URL w u = Inr urlObj \<and> final_segment (pathname urlObj) \<noteq> []
          \<and> fetch w GET u = Inr r \<and> ok r \<and> arrayBuffer r = Inl e \<longrightarrow>
        fst (downloadFontFiles_op w u)
          = Inr \<lparr>success = False, filename = ''unknown'', error = Some (message e)\<rparr>"
    by (auto simp: downloadFontFiles_op_cases)
  have d4: "\<forall>urlObj r b e. new_URL w u = Inr urlObj \<and> final_segment (pathname urlObj) \<noteq> []
          \<and> fetch w GET u = Inr r \<and> ok r \<and> arrayBuffer r = Inr b
          \<and> writeFileSync w (path_join w (OUTPUT_DIR w) (final_segment (pathname urlObj))) b = Inl e \<longrightarrow>
        fst (downloadFontFiles_op w u)
          = Inr \<lparr>success = False, filename = ''unknown'', error = Some (message e)\<rparr>"
    by (auto simp: downloadFontFiles_op_cases)
  have d5: "\<forall>urlObj r. new_URL w u = Inr urlObj \<and> final_segment (pathname urlObj) \<noteq> []
          \<and> fetch w GET u = Inr r \<and> \<not> ok r \<longrightarrow>
        fst (downloadFontFiles_op w u)
          = Inr \<lparr>success = False, filename = final_segment (pathname urlObj),
                 error = Some (''HTTP '' @ show_nat (status r))\<rparr>"
    by (auto simp: downloadFontFiles_op_cases)
  have b1: "\<exists>results trace. testUrls_results w (CONCURRENCY_LIMIT c) urls = Some (Inr results, trace)
         \<and> results = map (\<lambda>x. projr (fst (testUrls_op w x))) urls"
    unfolding testUrls_results_def
    using batch_loop_total[OF CONCURRENCY_LIMIT_pos, of urls "testUrls_op w" c]
    by (simp add: testUrls_op_total)
  have b2: "\<exists>results trace. downloadFontFiles_results w (CONCURRENCY_LIMIT c) urls = Some (Inr results, trace)
         \<and> results = map (\<lambda>x. projr (fst (downloadFontFiles_op w x))) urls"
    unfolding downloadFontFiles_results_def
    using batch_loop_total[OF CONCURRENCY_LIMIT_pos, of urls "downloadFontFiles_op w" c]
    by (simp add: downloadFontFiles_op_total)
  from t1 t2 t3 d1 d2 d3 d4 d5 b1 b2 show ?thesis by blast
qed

theorem per_item_failures_are_results_witness:
  "fetch sample_env HEAD ''https://down.example.com/c.otf''
       = Inl (JsError ''getaddrinfo ENOTFOUND down.example.com'')
   \<and> fst (testUrl sample_env ''https://down.example.com/c.otf'') = Inr False
   \<and> fst (testUrl sample_env ''https://example.com/fonts/b.ttf'') = Inr False
   \<and> downloadFontFiles_results sample_env (CONCURRENCY_LIMIT (Some 4))
        [''https://example.com/fonts/a.woff2'', ''https://down.example.com/c.otf'',
         ''https://example.com/fonts/locked.woff2'', ''https://example.com/fonts/b.ttf'',
         ''not a url''] =
      Some (Inr [\<lparr>success = True, filename = ''a.woff2'', error = None\<rparr>,
                 \<lparr>success = False, filename = ''unknown'',
                  error = Some ''getaddrinfo ENOTFOUND down.example.com''\<rparr>,
                 \<lparr>success = False, filename = ''unknown'', error = Some ''EACCES: permission denied''\<rparr>,
                 \<lparr>success = False, filename = ''b.ttf'', error = Some ''HTTP 404''\<rparr>,
                 \<lparr>success = False, filename = ''unknown'', error = Some ''Invalid URL''\<rparr>],
            [Fetch GET ''https://example.com/fonts/a.woff2'', WriteFile ''/out/a.woff2'' [119, 79, 70, 50],
             Fetch GET ''https://down.example.com/c.otf'',
             Fetch GET ''https://example.com/fonts/locked.woff2'',
             WriteFile ''/out/locked.woff2'' [119, 79, 70, 50],
             Fetch GET ''https://example.com/fonts/b.ttf''])"
proof -
  have a: "fetch sample_env HEAD ''https://down.example.com/c.otf''
       = Inl (JsError ''getaddrinfo ENOTFOUND down.example.com'')"
    by (simp add: sample_env_def sample_fetch_def)
  have r: "fetch sample_env HEAD ''https://example.com/fonts/b.ttf''
       = Inr (sample_response False 404 ''https://example.com/fonts/b.ttf'' [])"
    by (simp add: sample_env_def sample_fetch_def)
  have nok: "\<not> ok (sample_response False 404 ''https://example.com/fonts/b.ttf'' [])"
    by (simp add: sample_response_def)
  note T = per_item_failures_are_results[of sample_env]
  have b: "fst (testUrl sample_env ''https://down.example.com/c.otf'') = Inr False"
    using T[of "''https://down.example.com/c.otf''" None "[]"] a by blast
  have c: "fst (testUrl sample_env ''https://example.com/fonts/b.ttf'') = Inr False"
    using T[of "''https://example.com/fonts/b.ttf''" None "[]"] r nok by blast
  have d: "downloadFontFiles_results sample_env (CONCURRENCY_LIMIT (Some 4))
        [''https://example.com/fonts/a.woff2'', ''https://down.example.com/c.otf'',
         ''https://example.com/fonts/locked.woff2'', ''https://example.com/fonts/b.ttf'',
         ''not a url''] =
      Some (Inr [\<lparr>success = True, filename = ''a.woff2'', error = None\<rparr>,
                 \<lparr>success = False, filename = ''unknown'',
                  error = Some ''getaddrinfo ENOTFOUND down.example.com''\<rparr>,
                 \<lparr>success = False, filename = ''unknown'', error = Some ''EACCES: permission denied''\<rparr>,
                 \<lparr>success = False, filename = ''b.ttf'', error = Some ''HTTP 404''\<rparr>,
                 \<lparr>success = False, filename = ''unknown'', error = Some ''Invalid URL''\<rparr>],
            [Fetch GET ''https://example.com/fonts/a.woff2'', WriteFile ''/out/a.woff2'' [119, 79, 70, 50],
             Fetch GET ''https://down.example.com/c.otf'',
             Fetch GET ''https://example.com/fonts/locked.woff2'',
             WriteFile ''/out/locked.woff2'' [119, 79, 70, 50],
             Fetch GET ''https://example.com/fonts/b.ttf''])"
    by code_simp
  from a b c d show ?thesis by blast
qed

text \<open>
  Claim C6, as the specification states it, fails on the text of the error: the program
  answers \<^verbatim>\<open>"No filename found"\<close>, with a capital N, not \<^verbatim>\<open>"no filename found"\<close>.
\<close>

theorem no_filename_outcome_counterexample:
  "new_URL sample_env ''https://example.com/fonts/''
       = Inr (mk_url ''https:'' ''example.com'' ''/fonts/'' [] [])
   \<and> pathname (mk_url ''https:'' ''example.com'' ''/fonts/'' [] []) = ''/fonts/''
   \<and> final_segment ''/fonts/'' = []
   \<and> downloadFontFiles_op sample_env ''https://example.com/fonts/''
        \<noteq> (Inr \<lparr>success = False, filename = ''unknown'', error = Some ''no filename found''\<rparr>, [])
   \<and> downloadFontFiles_op sample_env ''https://example.com/fonts/''
        = (Inr \<lparr>success = False, filename = ''unknown'', error = Some ''No filename found''\<rparr>, [])"
  by code_simp

text \<open>
  Claim C6, amended. For every URL that parses and whose path has an empty final
  \<open>/\<close>-delimited segment, the operation of the retriever returns
  \<^verbatim>\<open>{success: false, filename: "unknown", error: "No filename found"}\<close> and makes no network
  or file-system call.
\<close>

theorem no_filename_outcome:
  assumes "new_URL w u = Inr urlObj" and "final_segment (pathname urlObj) = []"
  shows "downloadFontFiles_op w u
           = (Inr \<lparr>success = False, filename = ''unknown'', error = Some ''No filename found''\<rparr>, [])"
  using assms by (simp add: downloadFontFiles_op_cases)

theorem no_filename_outcome_witness:
  "downloadFontFiles_op sample_env ''https://example.com/''
     = (Inr \<lparr>success = False, filename = ''unknown'', error = Some ''No filename found''\<rparr>, [])"
proof -
  have a: "new_URL sample_env ''https://example.com/'' = Inr (mk_url ''https:'' ''example.com'' ''/'' [] [])"
    by (simp add: sample_env_def sample_new_URL_def)
  have b: "final_segment (pathname (mk_url ''https:'' ''example.com'' ''/'' [] [])) = []"
    by (simp add: mk_url_def final_segment_def)
  show ?thesis by (rule no_filename_outcome[OF a b])
qed


subsection \<open>The destination of a download\<close>

lemma downloadFontFiles_op_writes:
  assumes "new_URL w u = Inr urlObj" and "WriteFile p b \<in> set (snd (downloadFontFiles_op w u))"
  shows "p = path_join w (OUTPUT_DIR w) (final_segment (pathname urlObj))"
  using assms
  by (auto simp: downloadFontFiles_op_cases Let_def split: if_splits sum.splits)

lemma downloadFontFiles_op_success:
  assumes "new_URL w u = Inr urlObj" and "fst (downloadFontFiles_op w u) = Inr out" and "success out"
  shows "filename out = final_segment (pathname urlObj) \<and>
         (\<exists>b. snd (downloadFontFiles_op w u) =
            [Fetch GET u, WriteFile (path_join w (OUTPUT_DIR w) (final_segment (pathname urlObj))) b])"
  using assms
  by (auto simp: downloadFontFiles_op_cases Let_def split: if_splits sum.splits)

text \<open>
  Claim C10. For a URL that parses, every file the retriever writes for it goes to
  \<^verbatim>\<open>path.join(OUTPUT_DIR, s)\<close> where \<open>s\<close> is the final \<open>/\<close>-delimited segment of the
  pathname, and a successful outcome reports \<open>s\<close> as the filename; when the pathname has no
  \<open>?\<close> and no \<open>#\<close> (as the URL standard guarantees) neither has the filename. Two URLs whose
  parsed forms differ only in the query string and the fragment (and so in \<^verbatim>\<open>href\<close>) are
  written to the same path.
\<close>

theorem saved_filename_from_pathname:
  assumes "new_URL w u = Inr urlObj"
  shows "(\<forall>p b. WriteFile p b \<in> set (snd (downloadFontFiles_op w u)) \<longrightarrow>
            p = path_join w (OUTPUT_DIR w) (final_segment (pathname urlObj)))
       \<and> (\<forall>out. fst (downloadFontFiles_op w u) = Inr out \<and> success out \<longrightarrow>
            filename out = final_segment (pathname urlObj)
            \<and> (\<exists>b. snd (downloadFontFiles_op w u) =
                 [Fetch GET u, WriteFile (path_join w (OUTPUT_DIR w) (final_segment (pathname urlObj))) b])
            \<and> (CHR ''?'' \<notin> set (pathname urlObj) \<and> CHR ''#'' \<notin> set (pathname urlObj) \<longrightarrow>
                 CHR ''?'' \<notin> set (filename out) \<and> CHR ''#'' \<notin> set (filename out)))
       \<and> (\<forall>u' h q f p b p' b'.
            new_URL w u' = Inr (urlObj\<lparr>href := h, search := q, hash := f\<rparr>)
            \<and> WriteFile p b \<in> set (snd (downloadFontFiles_op w u))
            \<and> WriteFile p' b' \<in> set (snd (downloadFontFiles_op w u')) \<longrightarrow> p = p')"
proof (intro conjI allI impI)
  fix p b assume "WriteFile p b \<in> set (snd (downloadFontFiles_op w u))"
  with assms show "p = path_join w (OUTPUT_DIR w) (final_segment (pathname urlObj))"
    by (rule downloadFontFiles_op_writes)
next
  fix out assume a: "fst (downloadFontFiles_op w u) = Inr out \<and> success out"
  with downloadFontFiles_op_success[OF assms, of out]
  show "filename out = final_segment (pathname urlObj)" by blast
next
  fix out assume a: "fst (downloadFontFiles_op w u) = Inr out \<and> success out"
  with downloadFontFiles_op_success[OF assms, of out]
  show "\<exists>b. snd (downloadFontFiles_op w u) =
      [Fetch GET u, WriteFile (path_join w (OUTPUT_DIR w) (final_segment (pathname urlObj))) b]"
    by blast
next
  fix out
  assume a: "fst (downloadFontFiles_op w u) = Inr out \<and> success out"
    and b: "CHR ''?'' \<notin> set (pathname urlObj) \<and> CHR ''#'' \<notin> set (pathname urlObj)"
  from a downloadFontFiles_op_success[OF assms, of out]
  have "filename out = final_segment (pathname urlObj)" by blast
  with b final_segment_subset[of "pathname urlObj"]
  show "CHR ''?'' \<notin> set (filename out)" by auto
next
  fix out
  assume a: "fst (downloadFontFiles_op w u) = Inr out \<and> success out"
    and b: "CHR ''?'' \<notin> set (pathname urlObj) \<and> CHR ''#'' \<notin> set (pathname urlObj)"
  from a downloadFontFiles_op_success[OF assms, of out]
  have "filename out = final_segment (pathname urlObj)" by blast
  with b final_segment_subset[of "pathname urlObj"]
  show "CHR ''#'' \<notin> set (filename out)" by auto
next
  fix u' h q f p b p' b'
  assume a: "new_URL w u' = Inr (urlObj\<lparr>href := h, search := q, hash := f\<rparr>)
            \<and> WriteFile p b \<in> set (snd (downloadFontFiles_op w u))
            \<and> WriteFile p' b' \<in> set (snd (downloadFontFiles_op w u'))"
  then have 1: "p = path_join w (OUTPUT_DIR w) (final_segment (pathname urlObj))"
    using downloadFontFiles_op_writes[OF assms] by blast
  from a have "p' = path_join w (OUTPUT_DIR w)
      (final_segment (pathname (urlObj\<lparr>href := h, search := q, hash := f\<rparr>)))"
    using downloadFontFiles_op_writes[of w u'] by blast
  with 1 show "p = p'" by simp
qed

theorem saved_filename_from_pathname_witness:
  "downloadFontFiles_op sample_env ''https://example.com/fonts/a.woff2?v=1''
     = (Inr \<lparr>success = True, filename = ''a.woff2'', error = None\<rparr>,
        [Fetch GET ''https://example.com/fonts/a.woff2?v=1'', WriteFile ''/out/a.woff2'' [119, 79, 70, 50]])
   \<and> downloadFontFiles_op sample_env ''https://example.com/fonts/a.woff2#top''
     = (Inr \<lparr>success = True, filename = ''a.woff2'', error = None\<rparr>,
        [Fetch GET ''https://example.com/fonts/a.woff2#top'', WriteFile ''/out/a.woff2'' [119, 79, 70, 50]])
   \<and> (\<exists>p. WriteFile p [119, 79, 70, 50] \<in> set (snd (downloadFontFiles_op sample_env ''https://example.com/fonts/a.woff2?v=1''))
          \<and> WriteFile p [119, 79, 70, 50] \<in> set (snd (downloadFontFiles_op sample_env ''https://example.com/fonts/a.woff2#top''))
          \<and> p = path_join sample_env (OUTPUT_DIR sample_env) ''a.woff2'')"
proof -
  let ?o = "mk_url ''https:'' ''example.com'' ''/fonts/a.woff2'' ''?v=1'' []"
  have n1: "new_URL sample_env ''https://example.com/fonts/a.woff2?v=1'' = Inr ?o"
    by (simp add: sample_env_def sample_new_URL_def)
  have n2: "new_URL sample_env ''https://example.com/fonts/a.woff2#top''
      = Inr (?o\<lparr>href := ''https://example.com/fonts/a.woff2#top'', search := [], hash := ''#top''\<rparr>)"
    by (simp add: sample_env_def sample_new_URL_def mk_url_def)
  have fs: "final_segment (pathname ?o) = ''a.woff2''"
    by (simp add: mk_url_def final_segment_def)
  have e1: "downloadFontFiles_op sample_env ''https://example.com/fonts/a.woff2?v=1''
     = (Inr \<lparr>success = True, filename = ''a.woff2'', error = None\<rparr>,
        [Fetch GET ''https://example.com/fonts/a.woff2?v=1'', WriteFile ''/out/a.woff2'' [119, 79, 70, 50]])"
    by code_simp
  have e2: "downloadFontFiles_op sample_env ''https://example.com/fonts/a.woff2#top''
     = (Inr \<lparr>success = True, filename = ''a.woff2'', error = None\<rparr>,
        [Fetch GET ''https://example.com/fonts/a.woff2#top'', WriteFile ''/out/a.woff2'' [119, 79, 70, 50]])"
    by code_simp
  have w1: "WriteFile ''/out/a.woff2'' [119, 79, 70, 50]
      \<in> set (snd (downloadFontFiles_op sample_env ''https://example.com/fonts/a.woff2?v=1''))"
    by (simp add: e1)
  have w2: "WriteFile ''/out/a.woff2'' [119, 79, 70, 50]
      \<in> set (snd (downloadFontFiles_op sample_env ''https://example.com/fonts/a.woff2#top''))"
    by (simp add: e2)
  from saved_filename_from_pathname[OF n1] w1
  have "''/out/a.woff2'' = path_join sample_env (OUTPUT_DIR sample_env) (final_segment (pathname ?o))"
    by blast
  with fs have "''/out/a.woff2'' = path_join sample_env (OUTPUT_DIR sample_env) ''a.woff2''" by simp
  with e1 e2 w1 w2 show ?thesis by blast
qed

subsection \<open>The extension filter\<close>

text \<open>
  Claim C3. The extension filter returns the input URLs, in their order, that parse and whose
  final path segment ends, without regard to case, in a dot followed by one of the requested
  extensions (a leading dot of the extension stripped first). A URL that does not parse is
  dropped. A URL whose path ends in \<^verbatim>\<open>/font.WOFF2\<close> and whose query is \<^verbatim>\<open>?x=1\<close> is kept
  for the extension \<^verbatim>\<open>woff2\<close>.
\<close>

theorem filter_keeps_exactly_matching_urls:
  "filterUrlsByExtension w urls exts = filter (spec_keeps w exts) urls
   \<and> ((\<exists>e. new_URL w u = Inl e) \<longrightarrow> u \<notin> set (filterUrlsByExtension w urls exts))
   \<and> (\<forall>urlObj dir. new_URL w u = Inr urlObj \<and> pathname urlObj = dir @ ''/font.WOFF2''
          \<and> search urlObj = ''?x=1'' \<and> u \<in> set urls \<longrightarrow>
        u \<in> set (filterUrlsByExtension w urls [''woff2'']))"
proof (intro conjI allI impI)
  show "filterUrlsByExtension w urls exts = filter (spec_keeps w exts) urls"
    by (simp add: filterUrlsByExtension_def keeps_url_spec[abs_def])
next
  assume "\<exists>e. new_URL w u = Inl e"
  then show "u \<notin> set (filterUrlsByExtension w urls exts)"
    by (auto simp: filterUrlsByExtension_def keeps_url_def)
next
  fix urlObj dir
  assume a: "new_URL w u = Inr urlObj \<and> pathname urlObj = dir @ ''/font.WOFF2''
          \<and> search urlObj = ''?x=1'' \<and> u \<in> set urls"
  then have "final_segment (pathname urlObj) = ''font.WOFF2''"
    by (simp add: final_segment_def)
  moreover have "endsWith (toLowerCase ''font.WOFF2'') (toLowerCase (normalizedExt ''woff2''))"
    by code_simp
  ultimately have "keeps_url w [''woff2''] u"
    using a by (simp add: keeps_url_def pop_split_final)
  with a show "u \<in> set (filterUrlsByExtension w urls [''woff2''])"
    by (simp add: filterUrlsByExtension_def)
qed

theorem filter_keeps_exactly_matching_urls_witness:
  "filterUrlsByExtension sample_env
      [''https://example.com/fonts/b.ttf'', ''https://example.com/fonts/font.WOFF2?x=1'',
       ''not a url'', ''https://example.com/fonts/'', ''https://example.com/fonts/a.woff2'']
      [''woff2'']
     = [''https://example.com/fonts/font.WOFF2?x=1'', ''https://example.com/fonts/a.woff2'']
   \<and> ''https://example.com/fonts/font.WOFF2?x=1'' \<in> set (filterUrlsByExtension sample_env
        [''https://example.com/fonts/font.WOFF2?x=1''] [''woff2''])
   \<and> ''not a url'' \<notin> set (filterUrlsByExtension sample_env [''not a url''] [''woff2''])"
proof -
  have n: "new_URL sample_env ''https://example.com/fonts/font.WOFF2?x=1''
      = Inr (mk_url ''https:'' ''example.com'' ''/fonts/font.WOFF2'' ''?x=1'' [])"
    by (simp add: sample_env_def sample_new_URL_def)
  have p: "pathname (mk_url ''https:'' ''example.com'' ''/fonts/font.WOFF2'' ''?x=1'' []) = ''/fonts'' @ ''/font.WOFF2''"
    by (simp add: mk_url_def)
  have q: "search (mk_url ''https:'' ''example.com'' ''/fonts/font.WOFF2'' ''?x=1'' []) = ''?x=1''"
    by (simp add: mk_url_def)
  have i: "new_URL sample_env ''not a url'' = Inl (JsError ''Invalid URL'')"
    by (simp add: sample_env_def sample_new_URL_def)
  have a: "filterUrlsByExtension sample_env
      [''https://example.com/fonts/b.ttf'', ''https://example.com/fonts/font.WOFF2?x=1'',
       ''not a url'', ''https://example.com/fonts/'', ''https://example.com/fonts/a.woff2'']
      [''woff2'']
     = [''https://example.com/fonts/font.WOFF2?x=1'', ''https://example.com/fonts/a.woff2'']"
    by code_simp
  have b: "''https://example.com/fonts/font.WOFF2?x=1'' \<in> set (filterUrlsByExtension sample_env
        [''https://example.com/fonts/font.WOFF2?x=1''] [''woff2''])"
    using filter_keeps_exactly_matching_urls
      [of sample_env "[''https://example.com/fonts/font.WOFF2?x=1'']" "[''woff2'']"
          "''https://example.com/fonts/font.WOFF2?x=1''"] n p q
    by (metis list.set_intros(1))
  have c: "''not a url'' \<notin> set (filterUrlsByExtension sample_env [''not a url''] [''woff2''])"
    using filter_keeps_exactly_matching_urls[of sample_env "[''not a url'']" "[''woff2'']" "''not a url''"] i
    by blast
  from a b c show ?thesis by blast
qed


lemma selected_extensions_all:
  "selected_extensions [''all''] = [''woff2'', ''woff'', ''ttf'', ''otf'', ''eot'']"
  by (simp add: selected_extensions_def FONT_FORMATS_def)

lemma selected_extensions_single:
  "selected_extensions [''woff2''] = [''woff2'']"
  "selected_extensions [''woff''] = [''woff'']"
  "selected_extensions [''ttf''] = [''ttf'']"
  "selected_extensions [''otf''] = [''otf'']"
  "selected_extensions [''eot''] = [''eot'']"
  by (simp_all add: selected_extensions_def FONT_FORMATS_def)

lemma individual_formats:
  "filter (\<lambda>n. n \<noteq> ''all'') (map name FONT_FORMATS) = [''woff2'', ''woff'', ''ttf'', ''otf'', ''eot'']"
  by (simp add: FONT_FORMATS_def)

lemma keeps_url_all:
  "keeps_url w (selected_extensions [''all'']) u \<longleftrightarrow>
     keeps_url w (selected_extensions [''woff2'']) u \<or> keeps_url w (selected_extensions [''woff'']) u
     \<or> keeps_url w (selected_extensions [''ttf'']) u \<or> keeps_url w (selected_extensions [''otf'']) u
     \<or> keeps_url w (selected_extensions [''eot'']) u"
  unfolding selected_extensions_all selected_extensions_single
  by (simp add: keeps_url_def split: sum.splits option.splits)

text \<open>
  Claim C4. Filtering with the extensions of the format \<^verbatim>\<open>all\<close> keeps, in the order of the
  input, exactly the URLs that the filter keeps for at least one of the other formats of the
  catalogue (woff2, woff, ttf, otf, eot) taken alone.
\<close>

theorem all_format_is_union_of_formats:
  "filterUrlsByExtension w urls (selected_extensions [''all''])
     = filter (\<lambda>u. \<exists>f \<in> set (filter (\<lambda>n. n \<noteq> ''all'') (map name FONT_FORMATS)).
                  u \<in> set (filterUrlsByExtension w urls (selected_extensions [f]))) urls
   \<and> set (filterUrlsByExtension w urls (selected_extensions [''all'']))
     = (\<Union>f \<in> set (filter (\<lambda>n. n \<noteq> ''all'') (map name FONT_FORMATS)).
          set (filterUrlsByExtension w urls (selected_extensions [f])))
   \<and> selected_extensions [''all''] = [''woff2'', ''woff'', ''ttf'', ''otf'', ''eot'']
   \<and> filter (\<lambda>n. n \<noteq> ''all'') (map name FONT_FORMATS) = [''woff2'', ''woff'', ''ttf'', ''otf'', ''eot'']"
proof -
  have a: "filterUrlsByExtension w urls (selected_extensions [''all''])
     = filter (\<lambda>u. \<exists>f \<in> set (filter (\<lambda>n. n \<noteq> ''all'') (map name FONT_FORMATS)).
                  u \<in> set (filterUrlsByExtension w urls (selected_extensions [f]))) urls"
    unfolding individual_formats filterUrlsByExtension_def
    by (rule filter_cong) (auto simp: keeps_url_all)
  have b: "set (filterUrlsByExtension w urls (selected_extensions [''all'']))
     = (\<Union>f \<in> set (filter (\<lambda>n. n \<noteq> ''all'') (map name FONT_FORMATS)).
          set (filterUrlsByExtension w urls (selected_extensions [f])))"
    unfolding individual_formats filterUrlsByExtension_def
    by (auto simp: keeps_url_all)
  from a b selected_extensions_all individual_formats show ?thesis by blast
qed

lemma endsWith_nonempty: "endsWith s p \<Longrightarrow> p \<noteq> [] \<Longrightarrow> s \<noteq> []"
  by (auto simp: endsWith_def)

lemma normalizedExt_nonempty: "normalizedExt ext \<noteq> []"
  by (simp add: normalizedExt_spec)

lemma keeps_url_segment:
  assumes "keeps_url w exts u"
  shows "\<exists>urlObj. new_URL w u = Inr urlObj \<and> final_segment (pathname urlObj) \<noteq> []"
proof (cases "new_URL w u")
  case (Inl e)
  with assms show ?thesis by (simp add: keeps_url_def)
next
  case (Inr urlObj)
  with assms obtain ext where
    "endsWith (toLowerCase (final_segment (pathname urlObj))) (toLowerCase (normalizedExt ext))"
    by (auto simp: keeps_url_def pop_split_final list_ex_iff)
  then have "toLowerCase (final_segment (pathname urlObj)) \<noteq> []"
    by (rule endsWith_nonempty) (simp add: toLowerCase_def normalizedExt_nonempty)
  then have "final_segment (pathname urlObj) \<noteq> []" by (simp add: toLowerCase_def)
  with Inr show ?thesis by simp
qed

text \<open>
  Claim C9, as the specification states it, fails: the extension filter drops a URL with an
  empty final path segment without any error, and the reason the retriever gives for such a
  URL is \<^verbatim>\<open>"No filename found"\<close>, not \<^verbatim>\<open>"no filename found"\<close>.
\<close>

theorem filter_survivors_have_filename_counterexample:
  "new_URL sample_env ''https://example.com/''
       = Inr (mk_url ''https:'' ''example.com'' ''/'' [] [])
   \<and> final_segment (pathname (mk_url ''https:'' ''example.com'' ''/'' [] [])) = []
   \<and> filterUrlsByExtension sample_env [''https://example.com/''] (selected_extensions [''all'']) = []
   \<and> downloadFontFiles_results sample_env (CONCURRENCY_LIMIT None) [''https://example.com/'']
       = Some (Inr [\<lparr>success = False, filename = ''unknown'', error = Some ''No filename found''\<rparr>], [])
   \<and> downloadFontFiles_results sample_env (CONCURRENCY_LIMIT None) [''https://example.com/'']
       \<noteq> Some (Inr [\<lparr>success = False, filename = ''unknown'', error = Some ''no filename found''\<rparr>], [])"
  by code_simp

text \<open>
  Claim C9, amended. Every URL that survives the extension filter parses and has a non-empty
  final path segment. A URL that parses and has an empty final path segment is dropped by the
  filter, and when it is given to the retriever the result list has, at the index of that
  URL, the outcome \<^verbatim>\<open>{success: false, filename: "unknown", error: "No filename found"}\<close>.
\<close>

theorem filter_survivors_have_filename:
  "(u \<in> set (filterUrlsByExtension w urls exts) \<longrightarrow>
      (\<exists>urlObj. new_URL w u = Inr urlObj \<and> final_segment (pathname urlObj) \<noteq> []))
   \<and> (\<forall>urlObj. new_URL w u = Inr urlObj \<and> final_segment (pathname urlObj) = [] \<longrightarrow>
        u \<notin> set (filterUrlsByExtension w urls exts)
        \<and> (\<forall>k < length urls. urls ! k = u \<longrightarrow>
             (\<exists>results trace.
                downloadFontFiles_results w (CONCURRENCY_LIMIT c) urls = Some (Inr results, trace)
                \<and> length results = length urls
                \<and> results ! k
                    = \<lparr>success = False, filename = ''unknown'', error = Some ''No filename found''\<rparr>)))"
proof (intro conjI allI impI)
  assume "u \<in> set (filterUrlsByExtension w urls exts)"
  then have "keeps_url w exts u" by (simp add: filterUrlsByExtension_def)
  then show "\<exists>urlObj. new_URL w u = Inr urlObj \<and> final_segment (pathname urlObj) \<noteq> []"
    by (rule keeps_url_segment)
next
  fix urlObj
  assume a: "new_URL w u = Inr urlObj \<and> final_segment (pathname urlObj) = []"
  show "u \<notin> set (filterUrlsByExtension w urls exts)"
  proof
    assume "u \<in> set (filterUrlsByExtension w urls exts)"
    then have "keeps_url w exts u" by (simp add: filterUrlsByExtension_def)
    from keeps_url_segment[OF this] a show False by auto
  qed
next
  fix urlObj k
  assume a: "new_URL w u = Inr urlObj \<and> final_segment (pathname urlObj) = []"
    and k: "k < length urls" and u: "urls ! k = u"
  from a have op: "downloadFontFiles_op w u
      = (Inr \<lparr>success = False, filename = ''unknown'', error = Some ''No filename found''\<rparr>, [])"
    by (simp add: downloadFontFiles_op_cases)
  have "downloadFontFiles_results w (CONCURRENCY_LIMIT c) urls
      = Some (Inr (map (\<lambda>x. projr (fst (downloadFontFiles_op w x))) urls),
              concat (map (\<lambda>x. snd (downloadFontFiles_op w x)) urls))"
    unfolding downloadFontFiles_results_def
    by (rule batch_loop_total[OF CONCURRENCY_LIMIT_pos]) (simp add: downloadFontFiles_op_total)
  moreover have "map (\<lambda>x. projr (fst (downloadFontFiles_op w x))) urls ! k
      = \<lparr>success = False, filename = ''unknown'', error = Some ''No filename found''\<rparr>"
    using k u op by simp
  ultimately show "\<exists>results trace.
                downloadFontFiles_results w (CONCURRENCY_LIMIT c) urls = Some (Inr results, trace)
                \<and> length results = length urls
                \<and> results ! k
                    = \<lparr>success = False, filename = ''unknown'', error = Some ''No filename found''\<rparr>"
    by simp
qed

theorem filter_survivors_have_filename_witness:
  "''https://example.com/fonts/a.woff2'' \<in> set (filterUrlsByExtension sample_env
       [''https://example.com/fonts/'', ''https://example.com/fonts/a.woff2''] [''woff2''])
   \<and> (\<exists>urlObj. new_URL sample_env ''https://example.com/fonts/a.woff2'' = Inr urlObj
         \<and> final_segment (pathname urlObj) \<noteq> [])
   \<and> ''https://example.com/fonts/'' \<notin> set (filterUrlsByExtension sample_env
       [''https://example.com/fonts/'', ''https://example.com/fonts/a.woff2''] [''woff2''])
   \<and> (\<exists>results trace.
         downloadFontFiles_results sample_env (CONCURRENCY_LIMIT (Some 1))
           [''https://example.com/fonts/'', ''https://example.com/fonts/a.woff2'']
           = Some (Inr results, trace)
         \<and> length results = 2
         \<and> results ! 0 = \<lparr>success = False, filename = ''unknown'', error = Some ''No filename found''\<rparr>)"
proof -
  let ?urls = "[''https://example.com/fonts/'', ''https://example.com/fonts/a.woff2'']"
  have m: "''https://example.com/fonts/a.woff2'' \<in> set (filterUrlsByExtension sample_env ?urls [''woff2''])"
    by code_simp
  have n: "new_URL sample_env ''https://example.com/fonts/''
      = Inr (mk_url ''https:'' ''example.com'' ''/fonts/'' [] [])"
    by (simp add: sample_env_def sample_new_URL_def)
  have e: "final_segment (pathname (mk_url ''https:'' ''example.com'' ''/fonts/'' [] [])) = []"
    by (simp add: mk_url_def final_segment_def)
  have k: "(0::nat) < length ?urls" and i: "?urls ! 0 = ''https://example.com/fonts/''"
    by simp_all
  from filter_survivors_have_filename
    [of "''https://example.com/fonts/a.woff2''" sample_env ?urls "[''woff2'']" "Some 1"] m
  have s: "\<exists>urlObj. new_URL sample_env ''https://example.com/fonts/a.woff2'' = Inr urlObj
         \<and> final_segment (pathname urlObj) \<noteq> []"
    by blast
  from filter_survivors_have_filename
    [of "''https://example.com/fonts/''" sample_env ?urls "[''woff2'']" "Some 1"] n e
  have d: "''https://example.com/fonts/'' \<notin> set (filterUrlsByExtension sample_env ?urls [''woff2''])"
    and r: "\<forall>k < length ?urls. ?urls ! k = ''https://example.com/fonts/'' \<longrightarrow>
             (\<exists>results trace.
                downloadFontFiles_results sample_env (CONCURRENCY_LIMIT (Some 1)) ?urls = Some (Inr results, trace)
                \<and> length results = length ?urls
                \<and> results ! k
                    = \<lparr>success = False, filename = ''unknown'', error = Some ''No filename found''\<rparr>)"
    by blast+
  from r k i have "\<exists>results trace.
         downloadFontFiles_results sample_env (CONCURRENCY_LIMIT (Some 1)) ?urls = Some (Inr results, trace)
         \<and> length results = length ?urls
         \<and> results ! 0 = \<lparr>success = False, filename = ''unknown'', error = Some ''No filename found''\<rparr>"
    by blast
  then have "\<exists>results trace.
         downloadFontFiles_results sample_env (CONCURRENCY_LIMIT (Some 1)) ?urls = Some (Inr results, trace)
         \<and> length results = 2
         \<and> results ! 0 = \<lparr>success = False, filename = ''unknown'', error = Some ''No filename found''\<rparr>"
    by (simp add: numeral_2_eq_2)
  with m s d show ?thesis by blast
qed

section \<open>Properties of the URL extractor and the document scanner\<close>



text \<open>
  The recursion equations of the matcher are unfolded by hand in the proofs below.
\<close>

declare match_all.simps [simp del]
declare ends.simps [simp del]

lemmas ends_atom = ends.simps(1,2,3,4)

text \<open>
  The list \<open>same_canonical\<close> is exactly the set of code units with the same canonical form,
  so \<open>CharacterSetMatcher\<close> is the test of the standard: some member of the class has the
  canonical form of the character.
\<close>

lemma same_canonical_iff:
  "m \<in> set (same_canonical ic n) \<longleftrightarrow> Canonicalize ic m = Canonicalize ic n"
proof (cases ic)
  case False
  then show ?thesis by (simp add: same_canonical_def Canonicalize_def)
next
  case True
  define low where "low k \<longleftrightarrow> (97 \<le> k \<and> k \<le> 122) \<or> (224 \<le> k \<and> k \<le> 254 \<and> k \<noteq> 247)" for k :: nat
  define up where "up k \<longleftrightarrow> (65 \<le> k \<and> k \<le> 90) \<or> (192 \<le> k \<and> k \<le> 222 \<and> k \<noteq> 215)" for k :: nat
  have c: "Canonicalize True k = (if low k then k - 32 else k)" for k
    by (simp add: Canonicalize_def low_def)
  have s: "same_canonical True k = (if up (Canonicalize True k) then [Canonicalize True k, Canonicalize True k + 32]
      else [Canonicalize True k])" for k
    by (simp add: same_canonical_def up_def Let_def)
  have lu: "low k \<Longrightarrow> up (k - 32) \<and> 32 \<le> k \<and> \<not> low (k - 32)" for k
    unfolding low_def up_def by arith
  have ul: "up k \<Longrightarrow> low (k + 32) \<and> \<not> low k" for k
    unfolding low_def up_def by arith
  have nl: "\<not> low k \<Longrightarrow> \<not> up k \<Longrightarrow> \<not> (low j \<and> j - 32 = k)" for k j
    unfolding low_def up_def by arith
  show ?thesis
  proof (cases "low n")
    case ln: True
    from lu[OF ln] have u: "up (n - 32)" "32 \<le> n" "\<not> low (n - 32)" by simp_all
    show ?thesis
    proof (cases "low m")
      case True
      with lu[OF True] ln u \<open>ic\<close> show ?thesis by (auto simp: c s)
    next
      case False
      with ln u \<open>ic\<close> show ?thesis by (auto simp: c s)
    qed
  next
    case nln: False
    show ?thesis
    proof (cases "up n")
      case True
      from ul[OF True] have l: "low (n + 32)" by simp
      show ?thesis
      proof (cases "low m")
        case lm: True
        with lu[OF lm] nln True \<open>ic\<close> show ?thesis by (auto simp: c s)
      next
        case False
        with nln True l \<open>ic\<close> show ?thesis by (auto simp: c s)
      qed
    next
      case False
      show ?thesis
      proof (cases "low m")
        case lm: True
        with nl[OF nln False, of m] nln False \<open>ic\<close> show ?thesis by (auto simp: c s)
      next
        case False
        with nln \<open>\<not> up n\<close> \<open>ic\<close> show ?thesis by (auto simp: c s)
      qed
    qed
  qed
qed

lemma CharacterSetMatcher_standard:
  "CharacterSetMatcher ic invert items ch
     = ((\<exists>a. (\<exists>item \<in> set items. item_has item a)
              \<and> Canonicalize ic a = Canonicalize ic (of_char ch)) \<noteq> invert)"
  unfolding CharacterSetMatcher_def list_ex_iff
  using same_canonical_iff[of _ ic "of_char ch"] by blast

lemma single_class:
  "CharacterSetMatcher False False (map Single cs) c = (c \<in> set cs)"
  by (induction cs) (auto simp: CharacterSetMatcher_def same_canonical_def Canonicalize_def)

lemma ends_star_class:
  "ends ic (Repeat 0 None (Class neg items)) [] = [[]]"
  "ends ic (Repeat 0 None (Class neg items)) (x # xs) =
     (if CharacterSetMatcher ic neg items x then ends ic (Repeat 0 None (Class neg items)) xs else [])
     @ [x # xs]"
  by (subst ends.simps, simp add: ends_atom)+

lemma ends_plus_class:
  "ends ic (Repeat (Suc 0) None (Class neg items)) [] = []"
  "ends ic (Repeat (Suc 0) None (Class neg items)) (x # xs) =
     (if CharacterSetMatcher ic neg items x then ends ic (Repeat 0 None (Class neg items)) xs else [])"
  by (subst ends.simps, simp add: ends_atom)+

lemma star_class_to_end:
  "concat (map (ends ic EndOfInput) (ends ic (Repeat 0 None (Class neg items)) s))
     = (if list_all (CharacterSetMatcher ic neg items) s then [[]] else [])"
proof (induction s)
  case Nil
  show ?case by (simp add: ends_star_class ends.simps(4))
next
  case (Cons x xs)
  have e: "ends ic EndOfInput (x # xs) = []" by (simp add: ends.simps(4))
  show ?case
  proof (cases "CharacterSetMatcher ic neg items x")
    case True
    then show ?thesis using Cons.IH by (simp add: ends_star_class e)
  next
    case False
    then show ?thesis by (simp add: ends_star_class e)
  qed
qed

lemma plus_class_to_end:
  "ends ic (Seq (Repeat (Suc 0) None (Class neg items)) EndOfInput) s
     = (if s \<noteq> [] \<and> list_all (CharacterSetMatcher ic neg items) s then [[]] else [])"
proof (cases s)
  case Nil
  then show ?thesis by (simp add: ends.simps(5) ends_plus_class)
next
  case (Cons x xs)
  have "ends ic (Seq (Repeat (Suc 0) None (Class neg items)) EndOfInput) (x # xs)
      = concat (map (ends ic EndOfInput) (ends ic (Repeat (Suc 0) None (Class neg items)) (x # xs)))"
    by (simp only: ends.simps(5))
  also have "\<dots> = (if CharacterSetMatcher ic neg items x
      then concat (map (ends ic EndOfInput) (ends ic (Repeat 0 None (Class neg items)) xs)) else [])"
    by (simp add: ends_plus_class)
  finally show ?thesis using Cons by (simp add: star_class_to_end)
qed

lemma punctuation_class:
  "CharacterSetMatcher False False [Single CHR ''.'', Single CHR '','', Single CHR '';'',
      Single CHR ''!'', Single CHR ''?''] c = (c \<in> set ''.,;!?'')"
  using single_class[of "''.,;!?''" c] by simp

lemma punctuation_slash_class:
  "CharacterSetMatcher False False [Single CHR ''.'', Single CHR '','', Single CHR '';'',
      Single CHR ''!'', Single CHR ''?'', Single CHR ''/''] c = (c \<in> set ''.,;!?/'')"
  using single_class[of "''.,;!?/''" c] by simp

lemma test_only_punctuation:
  "test_at_start False only_punctuation s = only_punctuation_or_slash s"
  by (simp add: test_at_start_def only_punctuation_def only_punctuation_or_slash_def
      plus_class_to_end punctuation_slash_class[abs_def])

lemma strip_trailing_Cons:
  "strip_trailing_punctuation (x # xs) =
     (if list_all (\<lambda>c. c \<in> set ''.,;!?'') (x # xs) then [] else x # strip_trailing_punctuation xs)"
proof (cases "list_all (\<lambda>c. c \<in> set ''.,;!?'') xs")
  case True
  then have "dropWhile (\<lambda>c. c \<in> set ''.,;!?'') (rev xs @ [x]) = dropWhile (\<lambda>c. c \<in> set ''.,;!?'') [x]"
    by (intro dropWhile_append2) (simp add: list_all_iff)
  moreover from True have "dropWhile (\<lambda>c. c \<in> set ''.,;!?'') (rev xs) = []"
    by (simp add: list_all_iff)
  ultimately show ?thesis using True by (simp add: strip_trailing_punctuation_def)
next
  case False
  then obtain y where "y \<in> set (rev xs)" "\<not> y \<in> set ''.,;!?''"
    by (auto simp: list_all_iff)
  then have "dropWhile (\<lambda>c. c \<in> set ''.,;!?'') (rev xs @ [x])
      = dropWhile (\<lambda>c. c \<in> set ''.,;!?'') (rev xs) @ [x]"
    by (intro dropWhile_append1) auto
  with False show ?thesis by (simp add: strip_trailing_punctuation_def)
qed

lemma replace_trailing_punctuation:
  "replace_first False trailing_punctuation s = strip_trailing_punctuation s"
proof (induction s)
  case Nil
  show ?case
    by (simp add: trailing_punctuation_def plus_class_to_end strip_trailing_punctuation_def)
next
  case (Cons x xs)
  have "replace_first False trailing_punctuation (x # xs) =
      (if list_all (\<lambda>c. c \<in> set ''.,;!?'') (x # xs) then [] else x # replace_first False trailing_punctuation xs)"
    by (simp add: trailing_punctuation_def plus_class_to_end punctuation_class[abs_def])
  with Cons show ?case by (simp only: strip_trailing_Cons)
qed

lemma cleanUrl_spec: "cleanUrl m = strip_trailing_punctuation (trim m)"
  by (simp add: cleanUrl_def replace_trailing_punctuation)


lemma set_set_add: "set (set_add x xs) = insert x (set xs)"
  by (auto simp: set_add_def)

lemma distinct_set_add: "distinct xs \<Longrightarrow> distinct (set_add x xs)"
  by (simp add: set_add_def)

lemma set_add_all: "set (add_all found urls) = set urls \<union> set found"
  unfolding add_all_def by (induction found arbitrary: urls) (auto simp: set_set_add)

lemma set_fold_matches:
  "set (foldl (\<lambda>urls m. if K (f m) then set_add (f m) urls else urls) acc ms)
     = set acc \<union> {f m | m. m \<in> set ms \<and> K (f m)}"
  by (induction ms arbitrary: acc) (auto simp: set_set_add)

lemma distinct_fold_matches:
  "distinct acc \<Longrightarrow> distinct (foldl (\<lambda>urls m. if K (f m) then set_add (f m) urls else urls) acc ms)"
  by (induction ms arbitrary: acc) (auto simp: distinct_set_add)

lemma set_fold_patterns:
  "set (foldl (\<lambda>urls p. foldl (\<lambda>urls m. if K (f m) then set_add (f m) urls else urls) urls (g p)) acc ps)
     = set acc \<union> {f m | m p. p \<in> set ps \<and> m \<in> set (g p) \<and> K (f m)}"
proof (induction ps arbitrary: acc)
  case Nil
  show ?case by simp
next
  case (Cons p ps)
  show ?case by (simp add: Cons.IH set_fold_matches) blast
qed

lemma distinct_fold_patterns:
  "distinct acc \<Longrightarrow>
   distinct (foldl (\<lambda>urls p. foldl (\<lambda>urls m. if K (f m) then set_add (f m) urls else urls) urls (g p)) acc ps)"
  by (induction ps arbitrary: acc) (auto simp: distinct_fold_matches)

lemma set_extractUrlsFromText:
  "set (extractUrlsFromText txt)
     = {cleanUrl m | m p. p \<in> set urlPatterns \<and> m \<in> set (match_all True p txt)
          \<and> 2 < length (cleanUrl m) \<and> \<not> test_at_start False only_punctuation (cleanUrl m)}"
  unfolding extractUrlsFromText_def
  using set_fold_patterns
    [of "\<lambda>u. 2 < length u \<and> \<not> test_at_start False only_punctuation u" cleanUrl
        "\<lambda>p. match_all True p txt" "[]" urlPatterns]
  by simp

lemma distinct_extractUrlsFromText: "distinct (extractUrlsFromText txt)"
  unfolding extractUrlsFromText_def
  using distinct_fold_patterns
    [of "[]" "\<lambda>u. 2 < length u \<and> \<not> test_at_start False only_punctuation u" cleanUrl
        "\<lambda>p. match_all True p txt" urlPatterns]
  by simp

text \<open>
  Claim C7. For every text, every string the extractor returns is longer than 2, does not
  consist entirely of characters from \<^verbatim>\<open>. , ; ! ? /\<close>, and is a match of one of the four
  patterns with the surrounding white space trimmed and the trailing run of characters from
  \<^verbatim>\<open>. , ; ! ?\<close> stripped. Conversely every match that is longer than 2 and not only
  punctuation after this cleaning is returned, and no string is returned twice.
\<close>

theorem extracted_urls_are_cleaned_matches:
  "(\<forall>u \<in> set (extractUrlsFromText txt).
      2 < length u \<and> \<not> only_punctuation_or_slash u
      \<and> (\<exists>p \<in> set urlPatterns. \<exists>m \<in> set (match_all True p txt).
             u = strip_trailing_punctuation (trim m)))
   \<and> (\<forall>p \<in> set urlPatterns. \<forall>m \<in> set (match_all True p txt).
        2 < length (strip_trailing_punctuation (trim m))
        \<and> \<not> only_punctuation_or_slash (strip_trailing_punctuation (trim m)) \<longrightarrow>
        strip_trailing_punctuation (trim m) \<in> set (extractUrlsFromText txt))
   \<and> distinct (extractUrlsFromText txt)"
  unfolding set_extractUrlsFromText test_only_punctuation cleanUrl_spec
  using distinct_extractUrlsFromText by blast


subsection \<open>What a match consumes\<close>

lemma ends_consumes:
  "e \<in> set (ends ic r s) \<Longrightarrow> \<exists>m. s = m @ e \<and> (\<forall>c \<in> set m. accepts ic r c)"
proof (induction ic r s arbitrary: e rule: ends.induct)
  case (1 ic s)
  then show ?case by (simp add: ends.simps(1))
next
  case (2 ic c s)
  then show ?case by (cases s) (auto simp: ends.simps(2) split: if_splits)
next
  case (3 ic neg items s)
  then show ?case by (cases s) (auto simp: ends.simps(3) split: if_splits)
next
  case (4 ic s)
  then show ?case by (simp add: ends.simps(4) split: if_splits)
next
  case (5 ic r1 r2 s)
  from "5.prems" obtain s1 where s1: "s1 \<in> set (ends ic r1 s)" and e: "e \<in> set (ends ic r2 s1)"
    by (auto simp: ends.simps(5))
  from "5.IH"(1)[OF s1] obtain m1 where m1: "s = m1 @ s1" "\<forall>c \<in> set m1. accepts ic r1 c" by blast
  from "5.IH"(2)[OF s1 e] obtain m2 where m2: "s1 = m2 @ e" "\<forall>c \<in> set m2. accepts ic r2 c" by blast
  from m1 m2 have "s = (m1 @ m2) @ e \<and> (\<forall>c \<in> set (m1 @ m2). accepts ic (Seq r1 r2) c)" by auto
  then show ?case by blast
next
  case (6 ic mn mx r s)
  show ?case
  proof (cases "mx = Some 0")
    case True
    with "6.prems" have "e = s" by (subst (asm) ends.simps(6)) simp
    then show ?thesis by simp
  next
    case False
    with "6.prems" have
      "e \<in> set (concat (map (\<lambda>s'. if mn = 0 \<and> \<not> length s' < length s then []
                           else ends ic (Repeat (mn - 1) (map_option (\<lambda>m. m - 1) mx) r) s')
                    (ends ic r s))) \<or> e = s"
      by (subst (asm) ends.simps(6)) (auto split: if_splits)
    then show ?thesis
    proof
      assume "e = s"
      then show ?thesis by simp
    next
      assume "e \<in> set (concat (map (\<lambda>s'. if mn = 0 \<and> \<not> length s' < length s then []
                           else ends ic (Repeat (mn - 1) (map_option (\<lambda>m. m - 1) mx) r) s')
                    (ends ic r s)))"
      then obtain s' where s': "s' \<in> set (ends ic r s)"
        and c: "\<not> (mn = 0 \<and> \<not> length s' < length s)"
        and e: "e \<in> set (ends ic (Repeat (mn - 1) (map_option (\<lambda>m. m - 1) mx) r) s')"
        by (auto split: if_splits)
      from "6.IH"(1)[OF False s'] obtain m1 where m1: "s = m1 @ s'" "\<forall>c \<in> set m1. accepts ic r c"
        by blast
      from "6.IH"(2)[OF False s' c e] obtain m2 where
        m2: "s' = m2 @ e" "\<forall>c \<in> set m2. accepts ic (Repeat (mn - 1) (map_option (\<lambda>m. m - 1) mx) r) c"
        by blast
      from m1 m2 have "s = (m1 @ m2) @ e \<and> (\<forall>c \<in> set (m1 @ m2). accepts ic (Repeat mn mx r) c)"
        by auto
      then show ?thesis by blast
    qed
  qed
qed

lemma substring_of_refl: "substring_of u u"
  unfolding substring_of_def by (rule exI[of _ "[]"], rule exI[of _ "[]"]) simp

lemma substring_of_trans: "substring_of u v \<Longrightarrow> substring_of v w \<Longrightarrow> substring_of u w"
  unfolding substring_of_def
proof -
  assume "\<exists>pre post. v = pre @ u @ post" and "\<exists>pre post. w = pre @ v @ post"
  then obtain a b c d where "v = a @ u @ b" "w = c @ v @ d" by blast
  then have "w = (c @ a) @ u @ (b @ d)" by simp
  then show "\<exists>pre post. w = pre @ u @ post" by blast
qed

lemma substring_of_suffix: "substring_of u e \<Longrightarrow> substring_of u (m @ e)"
  unfolding substring_of_def
proof -
  assume "\<exists>pre post. e = pre @ u @ post"
  then obtain a b where "e = a @ u @ b" by blast
  then have "m @ e = (m @ a) @ u @ b" by simp
  then show "\<exists>pre post. m @ e = pre @ u @ post" by blast
qed

lemma substring_of_Nil: "substring_of [] v"
  unfolding substring_of_def by (rule exI[of _ "[]"], rule exI[of _ v]) simp

lemma substring_of_set: "substring_of u v \<Longrightarrow> set u \<subseteq> set v"
  by (auto simp: substring_of_def)

lemma match_all_substrings:
  "m \<in> set (match_all ic r s) \<Longrightarrow> substring_of m s \<and> (\<forall>c \<in> set m. accepts ic r c)"
proof (induction ic r s arbitrary: m rule: match_all.induct)
  case (1 ic r s)
  show ?case
  proof (cases "ends ic r s")
    case Nil
    show ?thesis
    proof (cases s)
      case Nil
      with \<open>ends ic r s = []\<close> "1.prems" show ?thesis by (subst (asm) match_all.simps) simp
    next
      case (Cons x rest)
      with \<open>ends ic r s = []\<close> "1.prems" have "m \<in> set (match_all ic r rest)"
        by (subst (asm) match_all.simps) simp
      from "1.IH"(1)[OF \<open>ends ic r s = []\<close> Cons this]
      have "substring_of m rest" and a: "\<forall>c \<in> set m. accepts ic r c" by blast+
      from substring_of_suffix[OF this(1), of "[x]"] Cons a show ?thesis by simp
    qed
  next
    case (Cons e es)
    then have "e \<in> set (ends ic r s)" by simp
    from ends_consumes[OF this] obtain m0 where m0: "s = m0 @ e" "\<forall>c \<in> set m0. accepts ic r c"
      by blast
    show ?thesis
    proof (cases "length e < length s")
      case True
      with Cons "1.prems" have "m = take (length s - length e) s \<or> m \<in> set (match_all ic r e)"
        by (subst (asm) match_all.simps) simp
      then show ?thesis
      proof
        assume "m = take (length s - length e) s"
        with m0 have "m = m0" by simp
        moreover have "substring_of m0 (m0 @ e)"
          unfolding substring_of_def by (rule exI[of _ "[]"], rule exI[of _ e]) simp
        ultimately show ?thesis using m0 by simp
      next
        assume "m \<in> set (match_all ic r e)"
        from "1.IH"(2)[OF Cons True this]
        have "substring_of m e" and a: "\<forall>c \<in> set m. accepts ic r c" by blast+
        from substring_of_suffix[OF this(1), of m0] m0 a show ?thesis by simp
      qed
    next
      case False
      show ?thesis
      proof (cases s)
        case Nil
        with Cons False "1.prems" have "m = []" by (subst (asm) match_all.simps) simp
        then show ?thesis by (simp add: substring_of_Nil)
      next
        case (Cons x rest)
        with \<open>ends ic r s = e # es\<close> False "1.prems"
        have "m = [] \<or> m \<in> set (match_all ic r rest)"
          by (subst (asm) match_all.simps) simp
        then show ?thesis
        proof
          assume "m = []"
          then show ?thesis by (simp add: substring_of_Nil)
        next
          assume "m \<in> set (match_all ic r rest)"
          from "1.IH"(3)[OF \<open>ends ic r s = e # es\<close> False Cons this]
          have "substring_of m rest" and a: "\<forall>c \<in> set m. accepts ic r c" by blast+
          from substring_of_suffix[OF this(1), of "[x]"] Cons a show ?thesis by simp
        qed
      qed
    qed
  qed
qed


lemma patterns_reject_space:
  assumes "is_space c"
  shows "\<not> accepts True pattern_absolute c" "\<not> accepts True pattern_protocol_relative c"
    "\<not> accepts True pattern_hostname c" "\<not> accepts True pattern_root_relative c"
proof -
  from assms have n: "(of_char c :: nat) \<in> {9, 10, 11, 12, 13, 32, 160}"
    by (simp add: is_space_def)
  have cls: "\<not> CharacterSetMatcher True True [WhiteSpace, Single (CHR 0x22), Single (CHR 0x27),
       Single CHR ''<'', Single CHR ''>'', Single CHR ''{'', Single CHR ''}'', Single CHR ''|'',
       Single (CHR 0x5C), Single CHR ''^'', Single (CHR 0x60), Single CHR ''['', Single CHR '']''] c"
    using n by (auto simp: CharacterSetMatcher_def same_canonical_def Canonicalize_def)
  have an: "\<not> CharacterSetMatcher True False
       [Range CHR ''a'' CHR ''z'', Range CHR ''A'' CHR ''Z'', Range CHR ''0'' CHR ''9''] c"
    using n by (auto simp: CharacterSetMatcher_def same_canonical_def Canonicalize_def)
  have ad: "\<not> CharacterSetMatcher True False
       [Range CHR ''a'' CHR ''z'', Range CHR ''A'' CHR ''Z'', Range CHR ''0'' CHR ''9'', Single CHR ''-''] c"
    using n by (auto simp: CharacterSetMatcher_def same_canonical_def Canonicalize_def)
  have al: "\<not> CharacterSetMatcher True False [Range CHR ''a'' CHR ''z'', Range CHR ''A'' CHR ''Z''] c"
    using n by (auto simp: CharacterSetMatcher_def same_canonical_def Canonicalize_def)
  have lit: "Canonicalize True (of_char c) = of_char c"
    using n by (auto simp: Canonicalize_def)
  have ne: "(of_char c :: nat) \<noteq> 72" "(of_char c :: nat) \<noteq> 84" "(of_char c :: nat) \<noteq> 80"
    "(of_char c :: nat) \<noteq> 83" "(of_char c :: nat) \<noteq> 58" "(of_char c :: nat) \<noteq> 47"
    "(of_char c :: nat) \<noteq> 46"
    using n by auto
  have cn: "Canonicalize True 104 = 72" "Canonicalize True 116 = 84" "Canonicalize True 112 = 80"
    "Canonicalize True 115 = 83" "Canonicalize True 58 = 58" "Canonicalize True 47 = 47"
    "Canonicalize True 46 = 46"
    by (simp_all add: Canonicalize_def)
  show "\<not> accepts True pattern_absolute c"
    by (simp add: pattern_absolute_def url_char_def cls lit ne cn)
  show "\<not> accepts True pattern_protocol_relative c"
    by (simp add: pattern_protocol_relative_def url_char_def cls lit ne cn)
  show "\<not> accepts True pattern_hostname c"
    by (simp add: pattern_hostname_def host_label_def alnum_def alnum_dash_def url_char_def
        cls an ad al lit ne cn)
  show "\<not> accepts True pattern_root_relative c"
    by (simp add: pattern_root_relative_def url_char_def cls lit ne cn)
qed

lemma urlPatterns_reject_space:
  "p \<in> set urlPatterns \<Longrightarrow> accepts True p c \<Longrightarrow> \<not> is_space c"
  using patterns_reject_space[of c] by (auto simp: urlPatterns_def)

lemma rev_dropWhile_takeWhile:
  "rev (dropWhile P (rev s)) @ rev (takeWhile P (rev s)) = s"
proof -
  have "rev (dropWhile P (rev s)) @ rev (takeWhile P (rev s))
      = rev (takeWhile P (rev s) @ dropWhile P (rev s))"
    by (simp only: rev_append)
  also have "\<dots> = rev (rev s)" by (simp only: takeWhile_dropWhile_id)
  also have "\<dots> = s" by (simp only: rev_rev_ident)
  finally show ?thesis .
qed

lemma strip_trailing_prefix:
  "\<exists>post. s = strip_trailing_punctuation s @ post"
proof -
  have "s = strip_trailing_punctuation s @ rev (takeWhile (\<lambda>c. c \<in> set ''.,;!?'') (rev s))"
    unfolding strip_trailing_punctuation_def by (rule rev_dropWhile_takeWhile[symmetric])
  then show ?thesis ..
qed

lemma trim_substring: "substring_of (trim m) m"
proof -
  let ?a = "rev (dropWhile is_space (rev m))"
  have 1: "m = ?a @ rev (takeWhile is_space (rev m))"
    by (rule rev_dropWhile_takeWhile[symmetric])
  have 2: "?a = takeWhile is_space ?a @ trim m"
    unfolding trim_def by (simp only: takeWhile_dropWhile_id)
  have "m = takeWhile is_space ?a @ trim m @ rev (takeWhile is_space (rev m))"
    using 1 2 by (metis append.assoc)
  then show ?thesis unfolding substring_of_def by blast
qed

lemma cleanUrl_substring: "substring_of (cleanUrl m) m"
proof -
  obtain post where "trim m = cleanUrl m @ post"
    using strip_trailing_prefix[of "trim m"] by (auto simp: cleanUrl_spec)
  then have "trim m = [] @ cleanUrl m @ post" by simp
  then have "substring_of (cleanUrl m) (trim m)" unfolding substring_of_def by blast
  then show ?thesis using trim_substring by (rule substring_of_trans)
qed

lemma substring_of_separated:
  assumes "substring_of u (a @ [sep] @ b)" and "sep \<notin> set u"
  shows "substring_of u a \<or> substring_of u b"
proof -
  from assms(1) obtain pre post where eq: "a @ sep # b = pre @ u @ post"
    by (auto simp: substring_of_def)
  then consider w where "a = pre @ w" "w @ sep # b = u @ post"
    | w where "a @ w = pre" "sep # b = w @ u @ post"
    by (auto simp: append_eq_append_conv2)
  then show ?thesis
  proof cases
    case 1
    from 1(2) consider z where "w = u @ z" "z @ sep # b = post"
      | z where "w @ z = u" "sep # b = z @ post"
      by (auto simp: append_eq_append_conv2)
    then show ?thesis
    proof cases
      case 1
      with \<open>a = pre @ w\<close> have "a = pre @ u @ z" by simp
      then show ?thesis unfolding substring_of_def by blast
    next
      case 2
      show ?thesis
      proof (cases z)
        case Nil
        with 2 \<open>a = pre @ w\<close> have "a = pre @ u @ []" by simp
        then show ?thesis unfolding substring_of_def by blast
      next
        case (Cons y ys)
        with 2 have "sep \<in> set u" by auto
        with assms(2) show ?thesis by simp
      qed
    qed
  next
    case 2
    show ?thesis
    proof (cases w)
      case Nil
      with 2 have "sep # b = u @ post" by simp
      with assms(2) have "u = []" by (cases u) auto
      then show ?thesis by (simp add: substring_of_Nil)
    next
      case (Cons y ys)
      with 2 have "b = ys @ u @ post" by simp
      then show ?thesis unfolding substring_of_def by blast
    qed
  qed
qed

lemma substring_of_join:
  assumes "substring_of u (join_with sep xs)" and "sep \<notin> set u" and "u \<noteq> []"
  shows "\<exists>v \<in> set xs. substring_of u v"
  using assms
proof (induction sep xs rule: join_with.induct)
  case (1 sep)
  then show ?case by (auto simp: substring_of_def)
next
  case (2 sep x)
  then show ?case by simp
next
  case (3 sep x y ys)
  from "3.prems"(1) have "substring_of u (x @ [sep] @ join_with sep (y # ys))" by simp
  from substring_of_separated[OF this "3.prems"(2)]
  show ?case
  proof
    assume "substring_of u x"
    then show ?thesis by auto
  next
    assume "substring_of u (join_with sep (y # ys))"
    from "3.IH"[OF this "3.prems"(2,3)] show ?thesis by auto
  qed
qed

text \<open>
  Claim C8, amended. For every text and every white-space separator, every string that a
  second run of the extractor returns over the text formed from the first result set is a
  contiguous part of some string of the first result set, is longer than 2 and is not only
  punctuation; it need not be a string of the first result set.
\<close>

theorem rescan_yields_substrings:
  assumes "is_space sep"
  shows "\<forall>u \<in> set (extractUrlsFromText (join_with sep (extractUrlsFromText txt))).
           (\<exists>v \<in> set (extractUrlsFromText txt). substring_of u v)
           \<and> 2 < length u \<and> \<not> only_punctuation_or_slash u"
proof
  fix u
  assume "u \<in> set (extractUrlsFromText (join_with sep (extractUrlsFromText txt)))"
  then obtain m p where p: "p \<in> set urlPatterns"
    and m: "m \<in> set (match_all True p (join_with sep (extractUrlsFromText txt)))"
    and u: "u = cleanUrl m" and len: "2 < length u"
    and nonp: "\<not> test_at_start False only_punctuation u"
    unfolding set_extractUrlsFromText by blast
  from match_all_substrings[OF m]
  have sub: "substring_of m (join_with sep (extractUrlsFromText txt))"
    and acc: "\<forall>c \<in> set m. accepts True p c" by blast+
  from acc urlPatterns_reject_space[OF p] have "\<forall>c \<in> set m. \<not> is_space c" by blast
  with assms have nosep: "sep \<notin> set m" by blast
  from u cleanUrl_substring[of m] have um: "substring_of u m" by simp
  from len um have "m \<noteq> []" by (auto simp: substring_of_def)
  from substring_of_join[OF sub nosep this]
  obtain v where "v \<in> set (extractUrlsFromText txt)" "substring_of m v" by blast
  with um have "\<exists>v \<in> set (extractUrlsFromText txt). substring_of u v"
    using substring_of_trans by blast
  with len nonp show "(\<exists>v \<in> set (extractUrlsFromText txt). substring_of u v)
           \<and> 2 < length u \<and> \<not> only_punctuation_or_slash u"
    by (simp add: test_only_punctuation)
qed




subsection \<open>Running the extractor on concrete texts\<close>

lemmas class_eval = ends.simps CharacterSetMatcher_def same_canonical_def Canonicalize_def Let_def

lemmas pattern_eval = match_all.simps pattern_absolute_def pattern_protocol_relative_def pattern_hostname_def
  pattern_root_relative_def host_label_def alnum_def alnum_dash_def url_char_def

lemmas clean_eval = cleanUrl_def trim_def is_space_def trailing_punctuation_def

lemma match_type_attribute:
  "match_all True pattern_absolute ''application/ld+json'' = []"
  "match_all True pattern_protocol_relative ''application/ld+json'' = []"
  "match_all True pattern_hostname ''application/ld+json'' = []"
  "match_all True pattern_root_relative ''application/ld+json'' = [''/ld+json'']"
  by (simp_all add: pattern_eval class_eval)

lemma match_src_attribute:
  "match_all True pattern_absolute ''/fonts/a.woff2'' = []"
  "match_all True pattern_protocol_relative ''/fonts/a.woff2'' = []"
  "match_all True pattern_hostname ''/fonts/a.woff2'' = [''a.woff'']"
  "match_all True pattern_root_relative ''/fonts/a.woff2'' = [''/fonts/a.woff2'']"
  by (simp_all add: pattern_eval class_eval)

lemma match_body_text:
  "match_all True pattern_absolute ''see https://cdn.example.com/b.ttf now''
     = [''https://cdn.example.com/b.ttf'']"
  "match_all True pattern_protocol_relative ''see https://cdn.example.com/b.ttf now''
     = [''//cdn.example.com/b.ttf'']"
  "match_all True pattern_hostname ''see https://cdn.example.com/b.ttf now''
     = [''cdn.example.com/b.ttf'']"
  "match_all True pattern_root_relative ''see https://cdn.example.com/b.ttf now''
     = [''//cdn.example.com/b.ttf'']"
  by (simp_all add: pattern_eval class_eval)

lemma match_json_string:
  "match_all True pattern_absolute ''https://cdn.example.com/c.otf''
     = [''https://cdn.example.com/c.otf'']"
  "match_all True pattern_protocol_relative ''https://cdn.example.com/c.otf''
     = [''//cdn.example.com/c.otf'']"
  "match_all True pattern_hostname ''https://cdn.example.com/c.otf''
     = [''cdn.example.com/c.otf'']"
  "match_all True pattern_root_relative ''https://cdn.example.com/c.otf''
     = [''//cdn.example.com/c.otf'']"
  by (simp_all add: pattern_eval class_eval)

lemma clean_page_matches:
  "cleanUrl ''/ld+json'' = ''/ld+json''"
  "cleanUrl ''a.woff'' = ''a.woff''"
  "cleanUrl ''/fonts/a.woff2'' = ''/fonts/a.woff2''"
  "cleanUrl ''https://cdn.example.com/b.ttf'' = ''https://cdn.example.com/b.ttf''"
  "cleanUrl ''//cdn.example.com/b.ttf'' = ''//cdn.example.com/b.ttf''"
  "cleanUrl ''cdn.example.com/b.ttf'' = ''cdn.example.com/b.ttf''"
  "cleanUrl ''https://cdn.example.com/c.otf'' = ''https://cdn.example.com/c.otf''"
  "cleanUrl ''//cdn.example.com/c.otf'' = ''//cdn.example.com/c.otf''"
  "cleanUrl ''cdn.example.com/c.otf'' = ''cdn.example.com/c.otf''"
  by (simp_all add: clean_eval class_eval)

lemma keep_page_matches:
  "\<not> test_at_start False only_punctuation ''/ld+json''"
  "\<not> test_at_start False only_punctuation ''a.woff''"
  "\<not> test_at_start False only_punctuation ''/fonts/a.woff2''"
  "\<not> test_at_start False only_punctuation ''https://cdn.example.com/b.ttf''"
  "\<not> test_at_start False only_punctuation ''//cdn.example.com/b.ttf''"
  "\<not> test_at_start False only_punctuation ''cdn.example.com/b.ttf''"
  "\<not> test_at_start False only_punctuation ''https://cdn.example.com/c.otf''"
  "\<not> test_at_start False only_punctuation ''//cdn.example.com/c.otf''"
  "\<not> test_at_start False only_punctuation ''cdn.example.com/c.otf''"
  by (simp_all add: test_at_start_def only_punctuation_def class_eval)

lemma extract_page_texts:
  "extractUrlsFromText ''application/ld+json'' = [''/ld+json'']"
  "extractUrlsFromText ''/fonts/a.woff2'' = [''a.woff'', ''/fonts/a.woff2'']"
  "extractUrlsFromText ''see https://cdn.example.com/b.ttf now''
     = [''https://cdn.example.com/b.ttf'', ''//cdn.example.com/b.ttf'', ''cdn.example.com/b.ttf'']"
  "extractUrlsFromText ''https://cdn.example.com/c.otf''
     = [''https://cdn.example.com/c.otf'', ''//cdn.example.com/c.otf'', ''cdn.example.com/c.otf'']"
  by (simp_all add: extractUrlsFromText_def urlPatterns_def set_add_def match_type_attribute
      match_src_attribute match_body_text match_json_string clean_page_matches keep_page_matches)

lemma scan_page_value:
  "extractUrls page_env ''https://page-origin/''
     = (Return [''https://cdn.example.com/b.ttf'', ''https://cdn.example.com/c.otf'',
                ''https://page-origin/a.woff'', ''https://page-origin/cdn.example.com/b.ttf'',
                ''https://page-origin/cdn.example.com/c.otf'', ''https://page-origin/fonts/a.woff2'',
                ''https://page-origin/ld+json''],
        [Fetch GET ''https://page-origin/''])"
  by (simp add: extractUrls_def page_env_def page_document_def page_json_text_def page_html_def
      page_resolve_def mk_url_def scan_attributes_def scan_scripts_def absolutize_def add_all_def
      set_add_def io_bind_def io_lift_def io_return_def do_fetch_def trim_def is_space_def
      extract_page_texts less_eq_char_def less_char_def)


lemma match_rescan_first:
  "match_all True pattern_absolute ''https://cdn.example.com/b.ttf''
     = [''https://cdn.example.com/b.ttf'']"
  "match_all True pattern_protocol_relative ''https://cdn.example.com/b.ttf''
     = [''//cdn.example.com/b.ttf'']"
  "match_all True pattern_hostname ''https://cdn.example.com/b.ttf''
     = [''cdn.example.com/b.ttf'']"
  "match_all True pattern_root_relative ''https://cdn.example.com/b.ttf''
     = [''//cdn.example.com/b.ttf'']"
  by (simp_all add: pattern_eval class_eval)

lemma match_rescan_second:
  "match_all True pattern_absolute
      ''https://cdn.example.com/b.ttf //cdn.example.com/b.ttf cdn.example.com/b.ttf''
     = [''https://cdn.example.com/b.ttf'']"
  "match_all True pattern_protocol_relative
      ''https://cdn.example.com/b.ttf //cdn.example.com/b.ttf cdn.example.com/b.ttf''
     = [''//cdn.example.com/b.ttf'', ''//cdn.example.com/b.ttf'']"
  "match_all True pattern_hostname
      ''https://cdn.example.com/b.ttf //cdn.example.com/b.ttf cdn.example.com/b.ttf''
     = [''cdn.example.com/b.ttf'', ''cdn.example.com/b.ttf'', ''cdn.example.com/b.ttf'']"
  "match_all True pattern_root_relative
      ''https://cdn.example.com/b.ttf //cdn.example.com/b.ttf cdn.example.com/b.ttf''
     = [''//cdn.example.com/b.ttf'', ''//cdn.example.com/b.ttf'', ''/b.ttf'']"
  by (simp_all add: pattern_eval class_eval)

lemma clean_rescan:
  "cleanUrl ''/b.ttf'' = ''/b.ttf''"
  "\<not> test_at_start False only_punctuation ''/b.ttf''"
  by (simp_all add: clean_eval class_eval test_at_start_def only_punctuation_def)

lemma rescan_first_pass:
  "extractUrlsFromText ''https://cdn.example.com/b.ttf''
     = [''https://cdn.example.com/b.ttf'', ''//cdn.example.com/b.ttf'', ''cdn.example.com/b.ttf'']"
  by (simp add: extractUrlsFromText_def urlPatterns_def set_add_def match_rescan_first
      clean_page_matches keep_page_matches)

lemma rescan_second_literal:
  "extractUrlsFromText ''https://cdn.example.com/b.ttf //cdn.example.com/b.ttf cdn.example.com/b.ttf''
     = [''https://cdn.example.com/b.ttf'', ''//cdn.example.com/b.ttf'', ''cdn.example.com/b.ttf'',
        ''/b.ttf'']"
  by (simp add: extractUrlsFromText_def urlPatterns_def set_add_def
      match_rescan_second clean_page_matches keep_page_matches clean_rescan)

lemma rescan_second_pass:
  "extractUrlsFromText (join_with CHR '' '' (extractUrlsFromText ''https://cdn.example.com/b.ttf''))
     = [''https://cdn.example.com/b.ttf'', ''//cdn.example.com/b.ttf'', ''cdn.example.com/b.ttf'',
        ''/b.ttf'']"
proof -
  have "join_with CHR '' '' (extractUrlsFromText ''https://cdn.example.com/b.ttf'')
      = ''https://cdn.example.com/b.ttf //cdn.example.com/b.ttf cdn.example.com/b.ttf''"
    by (simp add: rescan_first_pass)
  then show ?thesis by (simp only: rescan_second_literal)
qed

lemma match_small_first:
  "match_all True pattern_absolute ''/a.bc/de'' = []"
  "match_all True pattern_protocol_relative ''/a.bc/de'' = []"
  "match_all True pattern_hostname ''/a.bc/de'' = [''a.bc/de'']"
  "match_all True pattern_root_relative ''/a.bc/de'' = [''/a.bc/de'']"
  by (simp_all add: pattern_eval class_eval)

lemma match_small_second:
  "match_all True pattern_absolute ''a.bc/de\<newline>/a.bc/de'' = []"
  "match_all True pattern_protocol_relative ''a.bc/de\<newline>/a.bc/de'' = []"
  "match_all True pattern_hostname ''a.bc/de\<newline>/a.bc/de'' = [''a.bc/de'', ''a.bc/de'']"
  "match_all True pattern_root_relative ''a.bc/de\<newline>/a.bc/de'' = [''/de'', ''/a.bc/de'']"
  by (simp_all add: pattern_eval class_eval)

lemma clean_small:
  "cleanUrl ''a.bc/de'' = ''a.bc/de''"
  "cleanUrl ''/a.bc/de'' = ''/a.bc/de''"
  "cleanUrl ''/de'' = ''/de''"
  "\<not> test_at_start False only_punctuation ''a.bc/de''"
  "\<not> test_at_start False only_punctuation ''/a.bc/de''"
  "\<not> test_at_start False only_punctuation ''/de''"
  by (simp_all add: clean_eval class_eval test_at_start_def only_punctuation_def)

lemma rescan_small_first_pass:
  "extractUrlsFromText ''/a.bc/de'' = [''a.bc/de'', ''/a.bc/de'']"
  by (simp add: extractUrlsFromText_def urlPatterns_def set_add_def match_small_first clean_small)

lemma rescan_small_second_literal:
  "extractUrlsFromText ''a.bc/de\<newline>/a.bc/de'' = [''a.bc/de'', ''/de'', ''/a.bc/de'']"
  by (simp add: extractUrlsFromText_def urlPatterns_def set_add_def match_small_second clean_small)

lemma rescan_small_second_pass:
  "extractUrlsFromText (join_with CHR ''\<newline>'' (extractUrlsFromText ''/a.bc/de''))
     = [''a.bc/de'', ''/de'', ''/a.bc/de'']"
proof -
  have "join_with CHR ''\<newline>'' (extractUrlsFromText ''/a.bc/de'') = ''a.bc/de\<newline>/a.bc/de''"
    by (simp add: rescan_small_first_pass)
  then show ?thesis by (simp only: rescan_small_second_literal)
qed

lemma match_sentence:
  "match_all True pattern_absolute ''go //a.bc/d.ttf, ok'' = []"
  "match_all True pattern_protocol_relative ''go //a.bc/d.ttf, ok'' = [''//a.bc/d.ttf,'']"
  "match_all True pattern_hostname ''go //a.bc/d.ttf, ok'' = [''a.bc/d.ttf,'']"
  "match_all True pattern_root_relative ''go //a.bc/d.ttf, ok'' = [''//a.bc/d.ttf,'']"
  by (simp_all add: pattern_eval class_eval)

lemma clean_sentence:
  "cleanUrl ''//a.bc/d.ttf,'' = ''//a.bc/d.ttf''"
  "cleanUrl ''a.bc/d.ttf,'' = ''a.bc/d.ttf''"
  "\<not> test_at_start False only_punctuation ''//a.bc/d.ttf''"
  "\<not> test_at_start False only_punctuation ''a.bc/d.ttf''"
  by (simp_all add: clean_eval class_eval test_at_start_def only_punctuation_def)

lemma extract_sentence:
  "extractUrlsFromText ''go //a.bc/d.ttf, ok'' = [''//a.bc/d.ttf'', ''a.bc/d.ttf'']"
  by (simp add: extractUrlsFromText_def urlPatterns_def set_add_def match_sentence clean_sentence)

theorem extracted_urls_are_cleaned_matches_witness:
  "extractUrlsFromText ''go //a.bc/d.ttf, ok'' = [''//a.bc/d.ttf'', ''a.bc/d.ttf'']
   \<and> 2 < length ''//a.bc/d.ttf''
   \<and> \<not> only_punctuation_or_slash ''//a.bc/d.ttf''
   \<and> (\<exists>p \<in> set urlPatterns. \<exists>m \<in> set (match_all True p ''go //a.bc/d.ttf, ok'').
         ''//a.bc/d.ttf'' = strip_trailing_punctuation (trim m))"
proof -
  have "''//a.bc/d.ttf'' \<in> set (extractUrlsFromText ''go //a.bc/d.ttf, ok'')"
    by (simp add: extract_sentence)
  with extracted_urls_are_cleaned_matches[of "''go //a.bc/d.ttf, ok''"]
  have "2 < length ''//a.bc/d.ttf'' \<and> \<not> only_punctuation_or_slash ''//a.bc/d.ttf''
      \<and> (\<exists>p \<in> set urlPatterns. \<exists>m \<in> set (match_all True p ''go //a.bc/d.ttf, ok'').
         ''//a.bc/d.ttf'' = strip_trailing_punctuation (trim m))"
    by blast
  with extract_sentence show ?thesis by blast
qed

text \<open>
  Claim C8, as the specification states it, fails. The first pass over
  \<^verbatim>\<open>https://cdn.example.com/b.ttf\<close> returns that URL, \<^verbatim>\<open>//cdn.example.com/b.ttf\<close> and
  \<^verbatim>\<open>cdn.example.com/b.ttf\<close>; in the text formed from these three, separated by spaces, the
  pattern for root-relative paths finds \<^verbatim>\<open>/b.ttf\<close>, which the first pass did not return.
  The same happens with a line feed as the separator.
\<close>

theorem rescan_counterexample:
  "extractUrlsFromText ''https://cdn.example.com/b.ttf''
     = [''https://cdn.example.com/b.ttf'', ''//cdn.example.com/b.ttf'', ''cdn.example.com/b.ttf'']
   \<and> extractUrlsFromText (join_with CHR '' '' (extractUrlsFromText ''https://cdn.example.com/b.ttf''))
     = [''https://cdn.example.com/b.ttf'', ''//cdn.example.com/b.ttf'', ''cdn.example.com/b.ttf'',
        ''/b.ttf'']
   \<and> \<not> set (extractUrlsFromText (join_with CHR '' ''
            (extractUrlsFromText ''https://cdn.example.com/b.ttf'')))
        \<subseteq> set (extractUrlsFromText ''https://cdn.example.com/b.ttf'')
   \<and> \<not> set (extractUrlsFromText (join_with CHR ''\<newline>'' (extractUrlsFromText ''/a.bc/de'')))
        \<subseteq> set (extractUrlsFromText ''/a.bc/de'')"
proof (intro conjI)
  show "extractUrlsFromText ''https://cdn.example.com/b.ttf''
     = [''https://cdn.example.com/b.ttf'', ''//cdn.example.com/b.ttf'', ''cdn.example.com/b.ttf'']"
    by (rule rescan_first_pass)
  show "extractUrlsFromText (join_with CHR '' '' (extractUrlsFromText ''https://cdn.example.com/b.ttf''))
     = [''https://cdn.example.com/b.ttf'', ''//cdn.example.com/b.ttf'', ''cdn.example.com/b.ttf'',
        ''/b.ttf'']"
    by (rule rescan_second_pass)
  show "\<not> set (extractUrlsFromText (join_with CHR '' ''
            (extractUrlsFromText ''https://cdn.example.com/b.ttf'')))
        \<subseteq> set (extractUrlsFromText ''https://cdn.example.com/b.ttf'')"
    by (simp only: rescan_second_pass) (simp add: rescan_first_pass)
  show "\<not> set (extractUrlsFromText (join_with CHR ''\<newline>'' (extractUrlsFromText ''/a.bc/de'')))
        \<subseteq> set (extractUrlsFromText ''/a.bc/de'')"
    by (simp only: rescan_small_second_pass) (simp add: rescan_small_first_pass)
qed

theorem rescan_yields_substrings_witness:
  "is_space CHR '' ''
   \<and> ''/b.ttf'' \<in> set (extractUrlsFromText (join_with CHR '' ''
         (extractUrlsFromText ''https://cdn.example.com/b.ttf'')))
   \<and> (\<exists>v \<in> set (extractUrlsFromText ''https://cdn.example.com/b.ttf''). substring_of ''/b.ttf'' v)
   \<and> 2 < length ''/b.ttf''"
proof -
  have s: "is_space CHR '' ''" by (simp add: is_space_def)
  have m: "''/b.ttf'' \<in> set (extractUrlsFromText (join_with CHR '' ''
         (extractUrlsFromText ''https://cdn.example.com/b.ttf'')))"
    by (simp add: rescan_second_pass)
  from rescan_yields_substrings[OF s, of "''https://cdn.example.com/b.ttf''"] m
  have "(\<exists>v \<in> set (extractUrlsFromText ''https://cdn.example.com/b.ttf''). substring_of ''/b.ttf'' v)
      \<and> 2 < length ''/b.ttf''"
    by blast
  with s m show ?thesis by blast
qed

text \<open>
  Claim C5, as the specification states it, fails: for the page of the scenario the scanner
  returns seven entries, not three.
\<close>

theorem scan_scenario_counterexample:
  "fst (extractUrls page_env ''https://page-origin/'')
     \<noteq> Return [''https://cdn.example.com/b.ttf'', ''https://cdn.example.com/c.otf'',
                ''https://page-origin/fonts/a.woff2'']"
  by (simp add: scan_page_value)

text \<open>
  Claim C5, amended. For the page of the scenario the scanner makes one GET request and
  returns exactly the sorted list of seven URLs: the three of the scenario, and four that the
  overlapping patterns add, namely \<^verbatim>\<open>https://page-origin/a.woff\<close> (the host-name pattern
  inside \<^verbatim>\<open>/fonts/a.woff2\<close>), \<^verbatim>\<open>https://page-origin/cdn.example.com/b.ttf\<close> and
  \<^verbatim>\<open>https://page-origin/cdn.example.com/c.otf\<close> (the host-name pattern inside the absolute
  URLs, resolved against the page) and \<^verbatim>\<open>https://page-origin/ld+json\<close> (the root-relative
  pattern inside the \<^verbatim>\<open>type\<close> attribute of the JSON-LD script).
\<close>

theorem scan_scenario:
  "extractUrls page_env ''https://page-origin/''
     = (Return [''https://cdn.example.com/b.ttf'', ''https://cdn.example.com/c.otf'',
                ''https://page-origin/a.woff'', ''https://page-origin/cdn.example.com/b.ttf'',
                ''https://page-origin/cdn.example.com/c.otf'', ''https://page-origin/fonts/a.woff2'',
                ''https://page-origin/ld+json''],
        [Fetch GET ''https://page-origin/''])"
  by (rule scan_page_value)

end
